theory Spec2Isabelle
  imports Main "HOL-Library.Sublist" "HOL-Library.AList"
begin

section \<open>Exceptions, the outside world and Python string helpers\<close>

text \<open>
  The exception classes of \<^verbatim>\<open>utils/errors.py\<close> that the core raises. Each application
  error carries its message (what \<^verbatim>\<open>str(e)\<close> returns) and, where the class takes one, the
  optional \<^verbatim>\<open>details\<close>. \<open>OtherException\<close> stands for any exception that is not an
  \<^verbatim>\<open>AppError\<close>: whatever the device-bridge library, the operating system, the WebSocket
  transport or the interpreter itself raises.
\<close>

datatype exn =
    ADBConnectionError string "string option"
  | ADBDeviceNotFoundError string
  | ADBDeviceOfflineError string
  | ScrcpyDeployError string "string option"
  | ScrcpyStartError string "string option"
  | ScrcpyServerCrashError string "string option"
  | OtherException string

text \<open>\<^verbatim>\<open>str(e)\<close>: the message handed to \<^verbatim>\<open>Exception.__init__\<close>.\<close>

fun exn_str :: "exn \<Rightarrow> string" where
  "exn_str (ADBConnectionError m d) = m"
| "exn_str (ADBDeviceNotFoundError s) = ''Device not found: '' @ s"
| "exn_str (ADBDeviceOfflineError s) = ''Device offline: '' @ s"
| "exn_str (ScrcpyDeployError m d) = m"
| "exn_str (ScrcpyStartError m d) = m"
| "exn_str (ScrcpyServerCrashError m d) = m"
| "exn_str (OtherException m) = m"

text \<open>\<^verbatim>\<open>AppError.code\<close>; an exception that is not an \<^verbatim>\<open>AppError\<close> has none.\<close>

fun exn_code :: "exn \<Rightarrow> string option" where
  "exn_code (ADBConnectionError m d) = Some ''ADB_CONNECTION_FAILED''"
| "exn_code (ADBDeviceNotFoundError s) = Some ''ADB_DEVICE_NOT_FOUND''"
| "exn_code (ADBDeviceOfflineError s) = Some ''ADB_DEVICE_OFFLINE''"
| "exn_code (ScrcpyDeployError m d) = Some ''SCRCPY_DEPLOY_FAILED''"
| "exn_code (ScrcpyStartError m d) = Some ''SCRCPY_START_FAILED''"
| "exn_code (ScrcpyServerCrashError m d) = Some ''SCRCPY_SERVER_CRASHED''"
| "exn_code (OtherException m) = None"

text \<open>
  Every call that leaves the process is a request: to the device-bridge library
  (\<^verbatim>\<open>adb_shell\<close>), to the local file system, to the task scheduler or to a WebSocket.
  A WebSocket handle is a number.
\<close>

type_synonym websocket = nat

text \<open>
  What another task may do to the fan-out manager while a task of the core waits: the
  handler of a WebSocket attaches it when the connection opens (\<^verbatim>\<open>manager.connect\<close> at
  the head of \<^verbatim>\<open>websocket_stream\<close> and \<^verbatim>\<open>websocket_control\<close>) and detaches it when the
  connection ends (\<^verbatim>\<open>manager.disconnect\<close> in their \<^verbatim>\<open>finally\<close>).
\<close>

datatype fanout_op = Attach websocket string | Detach websocket string

datatype request =
    AdbConnect string string int bool
  | AdbClose string
  | AdbShell string string
  | AdbPush string string string
  | AdbPull string string
  | PathExists string
  | LoadSigner string
  | ReadFile string
  | WriteFile string string
  | CreateTask string
  | WsAccept websocket
  | WsState websocket
  | WsSendJson websocket string
  | WsSendBytes websocket string

text \<open>
  The world records the requests issued so far, most recent first, and a clock that
  \<^verbatim>\<open>datetime.now()\<close> reads.
\<close>

record world =
  trace :: "request list"
  clock :: nat

text \<open>
  The environment answers a request from the whole history (the request itself is the
  head of the list), so a device may behave differently after a push than before it.
  It also holds the process settings of \<^verbatim>\<open>config.py\<close> that the core reads.
  \<open>env_text\<close> answers requests that return text, \<open>env_unit\<close> requests that only
  succeed (\<open>None\<close>) or raise, \<open>env_bool\<close> requests that return a truth value.
  \<open>env_tasks\<close> is the scheduling of the event loop: the attach and detach calls that the
  handlers of other WebSockets make while the request at the head of the history is
  awaited.
\<close>

record env =
  env_text :: "request list \<Rightarrow> exn + string"
  env_unit :: "request list \<Rightarrow> exn option"
  env_bool :: "request list \<Rightarrow> bool"
  env_tasks :: "request list \<Rightarrow> fanout_op list"
  adb_host :: string
  adb_port :: int
  scrcpy_server_path :: string

definition ask_text :: "env \<Rightarrow> request \<Rightarrow> world \<Rightarrow> (exn + string) \<times> world" where
  "ask_text E r w = (env_text E (r # trace w), w\<lparr>trace := r # trace w\<rparr>)"

definition ask_unit :: "env \<Rightarrow> request \<Rightarrow> world \<Rightarrow> (exn + unit) \<times> world" where
  "ask_unit E r w =
     ((case env_unit E (r # trace w) of Some e \<Rightarrow> Inl e | None \<Rightarrow> Inr ()),
      w\<lparr>trace := r # trace w\<rparr>)"

definition ask_bool :: "env \<Rightarrow> request \<Rightarrow> world \<Rightarrow> bool \<times> world" where
  "ask_bool E r w = (env_bool E (r # trace w), w\<lparr>trace := r # trace w\<rparr>)"

text \<open>\<^verbatim>\<open>datetime.now()\<close>: the clock's value; the clock moves on.\<close>

definition now :: "world \<Rightarrow> nat \<times> world" where
  "now w = (clock w, w\<lparr>clock := Suc (clock w)\<rparr>)"

subsection \<open>Python strings\<close>

text \<open>
  A \<open>char\<close> is read as the code point of the same number (the Latin-1 range of
  Python's \<^verbatim>\<open>str\<close>). \<open>py_isspace\<close> is \<^verbatim>\<open>str.isspace\<close> on one character, which
  \<^verbatim>\<open>str.strip()\<close> uses.
\<close>

definition py_isspace :: "char \<Rightarrow> bool" where
  "py_isspace c = ((of_char c :: nat) \<in> {9, 10, 11, 12, 13, 28, 29, 30, 31, 32, 133, 160})"

definition py_strip :: "string \<Rightarrow> string" where
  "py_strip s = rev (dropWhile py_isspace (rev (dropWhile py_isspace s)))"

text \<open>\<^verbatim>\<open>sub in s\<close> for strings.\<close>

fun py_contains :: "string \<Rightarrow> string \<Rightarrow> bool" where
  "py_contains sub [] = (sub = [])"
| "py_contains sub (c # cs) = (prefix sub (c # cs) \<or> py_contains sub cs)"

text \<open>
  \<^verbatim>\<open>s.split(sep)\<close> for a non-empty separator (the source only splits on literals;
  Python raises on an empty one, which is left as the unsplit string here).
\<close>

function split_from :: "string \<Rightarrow> string \<Rightarrow> string \<Rightarrow> string list" where
  "split_from sep acc [] = [rev acc]"
| "split_from sep acc (c # cs) =
     (if sep \<noteq> [] \<and> prefix sep (c # cs)
      then rev acc # split_from sep [] (drop (length sep) (c # cs))
      else split_from sep (c # acc) cs)"
  by pat_completeness auto
termination
  by (relation "measure (\<lambda>(sep, acc, s). length s)") auto

definition py_split :: "string \<Rightarrow> string \<Rightarrow> string list" where
  "py_split s sep = split_from sep [] s"

text \<open>
  \<^verbatim>\<open>int(s)\<close> in base ten: surrounding white space is dropped (the characters the
  integer parser skips: tab to carriage return, space, and the two Latin-1 spaces), then an
  optional sign, then decimal digits in which single underscores may separate digits.
  \<open>None\<close> is \<^verbatim>\<open>ValueError\<close>. The interpreter refuses a text with more digits than
  \<^verbatim>\<open>sys.get_int_max_str_digits()\<close>, 4300 unless configured otherwise; leading zeros
  count, the sign, the underscores and the white space do not.
\<close>

definition int_max_str_digits :: nat where
  "int_max_str_digits = 4300"

definition int_space :: "char \<Rightarrow> bool" where
  "int_space c = ((of_char c :: nat) \<in> {9, 10, 11, 12, 13, 32, 133, 160})"

definition is_digit :: "char \<Rightarrow> bool" where
  "is_digit c = (48 \<le> (of_char c :: nat) \<and> (of_char c :: nat) \<le> 57)"

definition digit_val :: "char \<Rightarrow> int" where
  "digit_val c = int (of_char c) - 48"

text \<open>
  The digits after the sign, read left to right: \<open>prev\<close> tells whether the previous
  character was a digit (an underscore is only allowed after a digit and before one), and
  \<open>k\<close> counts the digits read so far.
\<close>

fun digits_val :: "bool \<Rightarrow> nat \<Rightarrow> int \<Rightarrow> string \<Rightarrow> int option" where
  "digits_val prev k acc [] = (if prev \<and> k \<le> int_max_str_digits then Some acc else None)"
| "digits_val prev k acc (c # cs) =
     (if is_digit c then digits_val True (Suc k) (10 * acc + digit_val c) cs
      else if c = CHR ''_'' \<and> prev then digits_val False k acc cs
      else None)"

definition py_int :: "string \<Rightarrow> int option" where
  "py_int s =
     (let t = rev (dropWhile int_space (rev (dropWhile int_space s)))
      in case t of
           [] \<Rightarrow> None
         | c # cs \<Rightarrow>
             if c = CHR ''+'' then digits_val False 0 0 cs
             else if c = CHR ''-'' then map_option uminus (digits_val False 0 0 cs)
             else digits_val False 0 0 (c # cs))"

section \<open>Device Connection (\<^verbatim>\<open>core/adb/connection.py\<close>)\<close>

text \<open>
  \<open>device\<close> is \<^verbatim>\<open>_device\<close>: \<open>None\<close>, or the library object created for a host and a
  port. \<open>connected\<close> is \<^verbatim>\<open>_connected\<close>.
\<close>

record adb_connection =
  serial :: string
  host :: string
  port :: int
  device :: "(string \<times> int) option"
  connected :: bool
  connection_time :: "nat option"
  last_activity :: "nat option"

text \<open>
  \<^verbatim>\<open>_parse_port_from_serial\<close>: \<^verbatim>\<open>serial.split(":")[1]\<close> raises \<^verbatim>\<open>IndexError\<close> when
  there is no second part and \<^verbatim>\<open>int\<close> raises \<^verbatim>\<open>ValueError\<close>; both are caught and the
  default is returned.
\<close>

definition parse_port_from_serial :: "string \<Rightarrow> int \<Rightarrow> int" where
  "parse_port_from_serial s default_port =
     (if py_contains '':'' s then
        (case py_split s '':'' of
           a # b # rest \<Rightarrow> (case py_int b of Some n \<Rightarrow> n | None \<Rightarrow> default_port)
         | _ \<Rightarrow> default_port)
      else default_port)"

text \<open>\<^verbatim>\<open>ADBConnection.__init__\<close>.\<close>

definition ADBConnection :: "string \<Rightarrow> string \<Rightarrow> int \<Rightarrow> adb_connection" where
  "ADBConnection s h p =
     \<lparr>serial = s, host = h, port = parse_port_from_serial s p, device = None,
      connected = False, connection_time = None, last_activity = None\<rparr>"

definition is_connected :: "adb_connection \<Rightarrow> bool" where
  "is_connected c = (connected c \<and> device c \<noteq> None)"

text \<open>
  \<^verbatim>\<open>connect\<close>: the library object is created first; the key file is looked for and a
  failure to load it is swallowed (no keys); any error of the handshake is re-raised as it
  is, after \<^verbatim>\<open>_connected\<close> is reset.
\<close>

definition connect :: "env \<Rightarrow> adb_connection \<Rightarrow> world \<Rightarrow> (exn + unit) \<times> adb_connection \<times> world" where
  "connect E c w =
     (let c1 = c\<lparr>device := Some (host c, port c)\<rparr>;
          key_path = ''~/.android/adbkey'';
          (has_key, w1) = ask_bool E (PathExists key_path) w;
          (rsa_keys, w2) =
            (if has_key then
               (case ask_unit E (LoadSigner key_path) w1 of
                  (Inr u, w') \<Rightarrow> (True, w')
                | (Inl e, w') \<Rightarrow> (False, w'))
             else (False, w1));
          (r, w3) = ask_unit E (AdbConnect (serial c) (host c) (port c) rsa_keys) w2
      in case r of
           Inl e \<Rightarrow> (Inl e, c1\<lparr>connected := False\<rparr>, w3)
         | Inr u \<Rightarrow>
             (let (t1, w4) = now w3; (t2, w5) = now w4
              in (Inr (), c1\<lparr>connected := True, connection_time := Some t1,
                              last_activity := Some t2\<rparr>, w5)))"

text \<open>\<^verbatim>\<open>disconnect\<close>: an error of \<^verbatim>\<open>close\<close> is re-raised and leaves the object as it was.\<close>

definition disconnect :: "env \<Rightarrow> adb_connection \<Rightarrow> world \<Rightarrow> (exn + unit) \<times> adb_connection \<times> world" where
  "disconnect E c w =
     (case device c of
        Some d \<Rightarrow>
          (case ask_unit E (AdbClose (serial c)) w of
             (Inl e, w1) \<Rightarrow> (Inl e, c, w1)
           | (Inr u, w1) \<Rightarrow> (Inr (), c\<lparr>device := None, connected := False\<rparr>, w1))
      | None \<Rightarrow> (Inr (), c\<lparr>connected := False\<rparr>, w))"

text \<open>
  \<^verbatim>\<open>shell\<close>, \<^verbatim>\<open>push\<close>, \<^verbatim>\<open>pull\<close>: the offline check, then the activity stamp (before
  the command is sent), then the command, whose error is logged and re-raised unchanged.
\<close>

definition shell :: "env \<Rightarrow> adb_connection \<Rightarrow> string \<Rightarrow> world \<Rightarrow> (exn + string) \<times> adb_connection \<times> world" where
  "shell E c command w =
     (if \<not> is_connected c \<or> device c = None then (Inl (ADBDeviceOfflineError (serial c)), c, w)
      else
        (let (t, w1) = now w;
             c1 = c\<lparr>last_activity := Some t\<rparr>;
             (r, w2) = ask_text E (AdbShell (serial c) command) w1
         in (r, c1, w2)))"

definition push :: "env \<Rightarrow> adb_connection \<Rightarrow> string \<Rightarrow> string \<Rightarrow> world \<Rightarrow> (exn + unit) \<times> adb_connection \<times> world" where
  "push E c local_path device_path w =
     (if \<not> is_connected c \<or> device c = None then (Inl (ADBDeviceOfflineError (serial c)), c, w)
      else
        (let (t, w1) = now w;
             c1 = c\<lparr>last_activity := Some t\<rparr>
         in case ask_text E (ReadFile local_path) w1 of
              (Inl e, w2) \<Rightarrow> (Inl e, c1, w2)
            | (Inr data, w2) \<Rightarrow>
                (case ask_unit E (AdbPush (serial c) data device_path) w2 of
                   (r, w3) \<Rightarrow> (r, c1, w3))))"

definition pull :: "env \<Rightarrow> adb_connection \<Rightarrow> string \<Rightarrow> string \<Rightarrow> world \<Rightarrow> (exn + unit) \<times> adb_connection \<times> world" where
  "pull E c device_path local_path w =
     (if \<not> is_connected c \<or> device c = None then (Inl (ADBDeviceOfflineError (serial c)), c, w)
      else
        (let (t, w1) = now w;
             c1 = c\<lparr>last_activity := Some t\<rparr>
         in case ask_text E (AdbPull (serial c) device_path) w1 of
              (Inl e, w2) \<Rightarrow> (Inl e, c1, w2)
            | (Inr data, w2) \<Rightarrow>
                (case ask_unit E (WriteFile local_path data) w2 of
                   (r, w3) \<Rightarrow> (r, c1, w3))))"

text \<open>The models of \<^verbatim>\<open>models/device.py\<close>.\<close>

datatype device_state = DEVICE | OFFLINE | UNAUTHORIZED

datatype transport_type = USB | WIFI

record resolution =
  width :: int
  height :: int

record adb_device =
  dev_id :: string
  dev_serial :: string
  dev_model :: string
  dev_state :: device_state
  dev_transport_type :: transport_type
  dev_connection_time :: nat
  dev_manufacturer :: "string option"
  dev_android_version :: "string option"
  dev_resolution :: "resolution option"

text \<open>
  \<^verbatim>\<open>get_device_info\<close>: four commands, each of which may raise; the screen size is
  parsed leniently (\<^verbatim>\<open>IndexError\<close> and \<^verbatim>\<open>ValueError\<close> leave the resolution absent).
\<close>

definition get_device_info :: "env \<Rightarrow> adb_connection \<Rightarrow> world \<Rightarrow> (exn + adb_device) \<times> adb_connection \<times> world" where
  "get_device_info E c w =
     (case shell E c ''getprop ro.product.model'' w of
        (Inl e, c1, w1) \<Rightarrow> (Inl e, c1, w1)
      | (Inr model, c1, w1) \<Rightarrow>
     (case shell E c1 ''getprop ro.product.manufacturer'' w1 of
        (Inl e, c2, w2) \<Rightarrow> (Inl e, c2, w2)
      | (Inr manufacturer, c2, w2) \<Rightarrow>
     (case shell E c2 ''getprop ro.build.version.release'' w2 of
        (Inl e, c3, w3) \<Rightarrow> (Inl e, c3, w3)
      | (Inr android_version, c3, w3) \<Rightarrow>
     (case shell E c3 ''wm size'' w3 of
        (Inl e, c4, w4) \<Rightarrow> (Inl e, c4, w4)
      | (Inr wm_size, c4, w4) \<Rightarrow>
          (let res =
                 (if py_contains ''Physical size:'' wm_size then
                    (case py_split wm_size ''Physical size:'' of
                       a # size_str # rest \<Rightarrow>
                         (case py_split (py_strip size_str) ''x'' of
                            [wd, ht] \<Rightarrow>
                              (case py_int wd of
                                 None \<Rightarrow> None
                               | Some x \<Rightarrow>
                                   (case py_int ht of
                                      None \<Rightarrow> None
                                    | Some y \<Rightarrow> Some \<lparr>width = x, height = y\<rparr>))
                          | _ \<Rightarrow> None)
                     | _ \<Rightarrow> None)
                  else None);
               (ct, w5) = (case connection_time c4 of Some t \<Rightarrow> (t, w4) | None \<Rightarrow> now w4)
           in (Inr \<lparr>dev_id = serial c4, dev_serial = serial c4, dev_model = py_strip model,
                    dev_state = DEVICE,
                    dev_transport_type = (if py_contains '':'' (serial c4) then WIFI else USB),
                    dev_connection_time = ct,
                    dev_manufacturer = Some (py_strip manufacturer),
                    dev_android_version = Some (py_strip android_version),
                    dev_resolution = res\<rparr>, c4, w5))))))"

text \<open>
  \<^verbatim>\<open>health_check\<close>: the body may raise (it returns \<open>exn + bool\<close>), and the
  \<^verbatim>\<open>except Exception\<close> around it turns every error into \<^verbatim>\<open>False\<close>.
\<close>

definition health_check_body :: "env \<Rightarrow> adb_connection \<Rightarrow> world \<Rightarrow> (exn + bool) \<times> adb_connection \<times> world" where
  "health_check_body E c w =
     (if \<not> is_connected c then (Inr False, c, w)
      else
        (case shell E c ''echo ping'' w of
           (Inl e, c1, w1) \<Rightarrow> (Inl e, c1, w1)
         | (Inr out, c1, w1) \<Rightarrow>
             (let (t, w2) = now w1 in (Inr True, c1\<lparr>last_activity := Some t\<rparr>, w2))))"

definition health_check :: "env \<Rightarrow> adb_connection \<Rightarrow> world \<Rightarrow> (exn + bool) \<times> adb_connection \<times> world" where
  "health_check E c w =
     (case health_check_body E c w of
        (Inl e, c1, w1) \<Rightarrow> (Inr False, c1, w1)
      | (Inr b, c1, w1) \<Rightarrow> (Inr b, c1, w1))"

section \<open>Device Registry (\<^verbatim>\<open>core/adb/device_manager.py\<close>)\<close>

text \<open>
  The two dictionaries keep insertion order, which the poll cycle and \<^verbatim>\<open>list_devices\<close>
  follow: they are association lists, written with \<open>AList.update\<close> (in place, or appended)
  and \<open>AList.delete\<close>. The registry holds the connection objects; a connection handed to a
  caller is the value stored at that moment.
\<close>

record device_manager =
  connections :: "(string \<times> adb_connection) list"
  devices :: "(string \<times> adb_device) list"
  running :: bool

definition ADBDeviceManager :: device_manager where
  "ADBDeviceManager = \<lparr>connections = [], devices = [], running = False\<rparr>"

definition list_devices :: "device_manager \<Rightarrow> adb_device list" where
  "list_devices dm = map snd (devices dm)"

definition get_device :: "device_manager \<Rightarrow> string \<Rightarrow> adb_device option" where
  "get_device dm s = map_of (devices dm) s"

definition get_connection :: "device_manager \<Rightarrow> string \<Rightarrow> exn + adb_connection" where
  "get_connection dm s =
     (case map_of (connections dm) s of
        None \<Rightarrow> Inl (ADBDeviceNotFoundError s)
      | Some c \<Rightarrow> Inr c)"

definition connect_new :: "env \<Rightarrow> device_manager \<Rightarrow> string \<Rightarrow> world \<Rightarrow> (exn + adb_connection) \<times> device_manager \<times> world" where
  "connect_new E dm s w =
     (case connect E (ADBConnection s (adb_host E) (adb_port E)) w of
        (Inl e, c1, w1) \<Rightarrow> (Inl e, dm, w1)
      | (Inr u, c1, w1) \<Rightarrow>
          (case get_device_info E c1 w1 of
             (Inl e, c2, w2) \<Rightarrow> (Inl e, dm, w2)
           | (Inr device_info, c2, w2) \<Rightarrow>
               (Inr c2,
                dm\<lparr>connections := AList.update s c2 (connections dm),
                   devices := AList.update s device_info (devices dm)\<rparr>, w2)))"

definition connect_to_device :: "env \<Rightarrow> device_manager \<Rightarrow> string \<Rightarrow> world \<Rightarrow> (exn + adb_connection) \<times> device_manager \<times> world" where
  "connect_to_device E dm s w =
     (case map_of (connections dm) s of
        Some existing_connection \<Rightarrow>
          (if is_connected existing_connection then (Inr existing_connection, dm, w)
           else connect_new E dm s w)
      | None \<Rightarrow> connect_new E dm s w)"

definition disconnect_from_device :: "env \<Rightarrow> device_manager \<Rightarrow> string \<Rightarrow> world \<Rightarrow> (exn + unit) \<times> device_manager \<times> world" where
  "disconnect_from_device E dm s w =
     (case map_of (connections dm) s of
        Some c \<Rightarrow>
          (case disconnect E c w of
             (Inl e, c1, w1) \<Rightarrow> (Inl e, dm, w1)
           | (Inr u, c1, w1) \<Rightarrow>
               (Inr (), dm\<lparr>connections := AList.delete s (connections dm),
                           devices := AList.delete s (devices dm)\<rparr>, w1))
      | None \<Rightarrow> (Inr (), dm\<lparr>devices := AList.delete s (devices dm)\<rparr>, w))"

text \<open>
  \<^verbatim>\<open>poll_devices\<close>. The health checks are gathered with \<^verbatim>\<open>return_exceptions=True\<close>:
  here they run one after the other in dictionary order, each result a value of
  \<open>exn + bool\<close>. Then every serial whose result is the boolean \<^verbatim>\<open>False\<close> is disconnected;
  an error of a disconnect leaves the loop and is logged by the \<^verbatim>\<open>except\<close> around the
  whole cycle.
\<close>

fun health_checks :: "env \<Rightarrow> (string \<times> adb_connection) list \<Rightarrow> world \<Rightarrow> (exn + bool) list \<times> (string \<times> adb_connection) list \<times> world" where
  "health_checks E [] w = ([], [], w)"
| "health_checks E ((s, c) # cs) w =
     (case health_check E c w of
        (r, c1, w1) \<Rightarrow>
          (case health_checks E cs w1 of
             (rs, cs1, w2) \<Rightarrow> (r # rs, (s, c1) # cs1, w2)))"

fun evict :: "env \<Rightarrow> (string \<times> (exn + bool)) list \<Rightarrow> device_manager \<Rightarrow> world \<Rightarrow> (exn + unit) \<times> device_manager \<times> world" where
  "evict E [] dm w = (Inr (), dm, w)"
| "evict E ((s, is_healthy) # rest) dm w =
     (if is_healthy = Inr False then
        (case disconnect_from_device E dm s w of
           (Inl e, dm1, w1) \<Rightarrow> (Inl e, dm1, w1)
         | (Inr u, dm1, w1) \<Rightarrow> evict E rest dm1 w1)
      else evict E rest dm w)"

definition poll_devices :: "env \<Rightarrow> device_manager \<Rightarrow> world \<Rightarrow> (exn + unit) \<times> device_manager \<times> world" where
  "poll_devices E dm w =
     (case health_checks E (connections dm) w of
        (results, cs1, w1) \<Rightarrow>
          (case evict E (zip (map fst (connections dm)) results) (dm\<lparr>connections := cs1\<rparr>) w1 of
             (r, dm2, w2) \<Rightarrow> (Inr (), dm2, w2)))"

section \<open>Server Deployer (\<^verbatim>\<open>core/scrcpy/server_deployer.py\<close>)\<close>

definition SERVER_REMOTE_PATH :: string where
  "SERVER_REMOTE_PATH = ''/data/local/tmp/scrcpy-server.jar''"

definition is_server_deployed :: "env \<Rightarrow> adb_connection \<Rightarrow> world \<Rightarrow> bool \<times> adb_connection \<times> world" where
  "is_server_deployed E c w =
     (case shell E c (''test -f '' @ SERVER_REMOTE_PATH @ '' && echo exists'') w of
        (Inr result, c1, w1) \<Rightarrow> (py_strip result = ''exists'', c1, w1)
      | (Inl e, c1, w1) \<Rightarrow> (False, c1, w1))"

definition push_server :: "env \<Rightarrow> adb_connection \<Rightarrow> string \<Rightarrow> world \<Rightarrow> (exn + unit) \<times> adb_connection \<times> world" where
  "push_server E c local_path w =
     (case push E c local_path SERVER_REMOTE_PATH w of
        (Inl e, c1, w1) \<Rightarrow>
          (Inl (ScrcpyDeployError ''Failed to push server file'' (Some (exn_str e))), c1, w1)
      | (Inr u, c1, w1) \<Rightarrow>
          (case shell E c1 (''chmod 644 '' @ SERVER_REMOTE_PATH) w1 of
             (Inl e, c2, w2) \<Rightarrow>
               (Inl (ScrcpyDeployError ''Failed to push server file'' (Some (exn_str e))), c2, w2)
           | (Inr out, c2, w2) \<Rightarrow> (Inr (), c2, w2)))"

definition verify_deployment :: "env \<Rightarrow> adb_connection \<Rightarrow> world \<Rightarrow> bool \<times> adb_connection \<times> world" where
  "verify_deployment E c w =
     (case shell E c (''file '' @ SERVER_REMOTE_PATH @ '' | grep -q 'Java' && echo valid'') w of
        (Inr result, c1, w1) \<Rightarrow> (py_strip result = ''valid'', c1, w1)
      | (Inl e, c1, w1) \<Rightarrow> is_server_deployed E c1 w1)"

text \<open>
  The \<^verbatim>\<open>except\<close> clause of \<^verbatim>\<open>deploy\<close>: a \<^verbatim>\<open>ScrcpyDeployError\<close> is re-raised, anything
  else is wrapped.
\<close>

fun deploy_except :: "exn \<Rightarrow> exn" where
  "deploy_except (ScrcpyDeployError m d) = ScrcpyDeployError m d"
| "deploy_except e = ScrcpyDeployError ''Failed to deploy scrcpy-server'' (Some (exn_str e))"

definition deploy :: "env \<Rightarrow> adb_connection \<Rightarrow> world \<Rightarrow> (exn + unit) \<times> adb_connection \<times> world" where
  "deploy E c w =
     (let server_path = scrcpy_server_path E;
          (local_exists, w0) = ask_bool E (PathExists server_path) w
      in if \<not> local_exists then
           (Inl (deploy_except (ScrcpyDeployError
              (''SCRCpy server file not found at '' @ server_path @
               ''. Please ensure scrcpy-server.jar is available.'') None)), c, w0)
         else
           (case is_server_deployed E c w0 of
              (is_deployed, c1, w1) \<Rightarrow>
                if is_deployed then (Inr (), c1, w1)
                else
                  (case push_server E c1 server_path w1 of
                     (Inl e, c2, w2) \<Rightarrow> (Inl (deploy_except e), c2, w2)
                   | (Inr u, c2, w2) \<Rightarrow>
                       (case verify_deployment E c2 w2 of
                          (verified, c3, w3) \<Rightarrow>
                            if \<not> verified then
                              (Inl (deploy_except (ScrcpyDeployError
                                 ''Failed to verify scrcpy-server deployment'' None)), c3, w3)
                            else (Inr (), c3, w3)))))"

section \<open>Process Lifecycle Manager (\<^verbatim>\<open>core/scrcpy/process_manager.py\<close>)\<close>

datatype VideoCodec = H264 | H265

datatype AudioCodec = AAC | OPUS

fun video_codec_value :: "VideoCodec \<Rightarrow> string" where
  "video_codec_value H264 = ''h264''"
| "video_codec_value H265 = ''h265''"

fun audio_codec_value :: "AudioCodec \<Rightarrow> string" where
  "audio_codec_value AAC = ''aac''"
| "audio_codec_value OPUS = ''opus''"

record ScrcpyConfig =
  max_size :: int
  bit_rate :: int
  max_fps :: int
  audio_codec :: AudioCodec
  audio_bit_rate :: int
  video_codec :: VideoCodec
  control :: bool
  audio :: bool
  display_id :: "int option"
  crop :: "string option"
  lock_video_orientation :: "int option"
  tunnel_forward :: bool

text \<open>The defaults of the fields of \<^verbatim>\<open>ScrcpyConfig\<close>.\<close>

definition default_config :: ScrcpyConfig where
  "default_config =
     \<lparr>max_size = 1920, bit_rate = 8000000, max_fps = 60, audio_codec = OPUS,
      audio_bit_rate = 128000, video_codec = H264, control = True, audio = True,
      display_id = None, crop = None, lock_video_orientation = None, tunnel_forward = True\<rparr>"

text \<open>\<^verbatim>\<open>str(n)\<close> for an integer, as the f-strings of the command builder format it.\<close>

function show_nat :: "nat \<Rightarrow> string" where
  "show_nat n = (if n < 10 then [char_of (48 + n)] else show_nat (n div 10) @ [char_of (48 + n mod 10)])"
  by pat_completeness auto
termination
  by (relation "measure id") auto

declare show_nat.simps [simp del]

definition show_int :: "int \<Rightarrow> string" where
  "show_int i = (if i < 0 then CHR ''-'' # show_nat (nat (- i)) else show_nat (nat i))"

fun join_space :: "string list \<Rightarrow> string" where
  "join_space [] = []"
| "join_space [a] = a"
| "join_space (a # b # rest) = a @ '' '' @ join_space (b # rest)"

definition build_args :: "ScrcpyConfig \<Rightarrow> string list" where
  "build_args cfg =
     [''scid=0'',
      ''max_size='' @ show_int (max_size cfg),
      ''bit_rate='' @ show_int (bit_rate cfg),
      ''max_fps='' @ show_int (max_fps cfg),
      ''video_codec='' @ video_codec_value (video_codec cfg)]
     @ (if audio cfg then
          [''audio=true'',
           ''audio_codec='' @ audio_codec_value (audio_codec cfg),
           ''audio_bit_rate='' @ show_int (audio_bit_rate cfg)]
        else [''audio=false''])
     @ [''control='' @ (if control cfg then ''true'' else ''false'')]
     @ (case display_id cfg of Some d \<Rightarrow> [''display_id='' @ show_int d] | None \<Rightarrow> [])
     @ (case crop cfg of
          Some cr \<Rightarrow> (if cr \<noteq> [] then [''crop='' @ cr] else [])
        | None \<Rightarrow> [])
     @ (case lock_video_orientation cfg of
          Some l \<Rightarrow> [''lock_video_orientation='' @ show_int l]
        | None \<Rightarrow> [])
     @ (if tunnel_forward cfg then [''tunnel_forward=true''] else [])
     @ [''send_device_meta=true'', ''send_frame_meta=true'', ''send_codec_meta=true'',
        ''send_dummy_byte=false'', ''downsize_on_error=false'', ''cleanup=true'',
        ''power_off_on_close=false'']"

definition build_command :: "env \<Rightarrow> ScrcpyConfig \<Rightarrow> string" where
  "build_command E cfg =
     ''CLASSPATH='' @ scrcpy_server_path E @ '' app_process / com.genymobile.scrcpy.Server ''
       @ join_space (build_args cfg)"

datatype ScrcpyServerState = STARTING | RUNNING | STOPPING | STOPPED | ERROR

text \<open>
  \<open>process_task\<close> is \<^verbatim>\<open>_process_task\<close>: \<open>None\<close>, or the background task, named by the
  command it runs.
\<close>

record process_manager =
  connection :: adb_connection
  config :: ScrcpyConfig
  state :: ScrcpyServerState
  start_time :: "nat option"
  error :: "string option"
  process_task :: "string option"

text \<open>\<^verbatim>\<open>ScrcpyProcessManager.__init__\<close>.\<close>

definition ScrcpyProcessManager :: "adb_connection \<Rightarrow> ScrcpyConfig \<Rightarrow> process_manager" where
  "ScrcpyProcessManager c cfg =
     \<lparr>connection = c, config = cfg, state = STOPPED, start_time = None, error = None,
      process_task = None\<rparr>"

text \<open>
  \<^verbatim>\<open>_cleanup\<close>: a pending task is cancelled and awaited (the \<^verbatim>\<open>CancelledError\<close> is
  swallowed; the task body catches every other exception itself), and the field is reset.
\<close>

definition cleanup :: "process_manager \<Rightarrow> process_manager" where
  "cleanup m = (case process_task m of Some t \<Rightarrow> m\<lparr>process_task := None\<rparr> | None \<Rightarrow> m)"

text \<open>
  \<^verbatim>\<open>_start_process\<close>: the command is built and the background task created; an error of
  the task creation becomes a \<^verbatim>\<open>ScrcpyStartError\<close>.
\<close>

definition start_process :: "env \<Rightarrow> process_manager \<Rightarrow> world \<Rightarrow> (exn + unit) \<times> process_manager \<times> world" where
  "start_process E m w =
     (let command = build_command E (config m)
      in case ask_unit E (CreateTask command) w of
           (Inl e, w1) \<Rightarrow>
             (Inl (ScrcpyStartError ''Failed to start scrcpy process'' (Some (exn_str e))), m, w1)
         | (Inr u, w1) \<Rightarrow> (Inr (), m\<lparr>process_task := Some command\<rparr>, w1))"

text \<open>The \<^verbatim>\<open>except\<close> clause of \<^verbatim>\<open>start\<close>.\<close>

definition start_except :: "exn \<Rightarrow> process_manager \<Rightarrow> world \<Rightarrow> (exn + unit) \<times> process_manager \<times> world" where
  "start_except e m w =
     (let m1 = cleanup (m\<lparr>state := ERROR, error := Some (exn_str e)\<rparr>)
      in (Inl (case e of
                 ScrcpyStartError msg d \<Rightarrow> e
               | _ \<Rightarrow> ScrcpyStartError (exn_str e) (Some (exn_str e))), m1, w))"

definition start :: "env \<Rightarrow> process_manager \<Rightarrow> world \<Rightarrow> (exn + unit) \<times> process_manager \<times> world" where
  "start E m w =
     (if state m = RUNNING then (Inr (), m, w)
      else
        (let m1 = m\<lparr>state := STARTING, error := None\<rparr>
         in case deploy E (connection m1) w of
              (Inl e, c1, w1) \<Rightarrow> start_except e (m1\<lparr>connection := c1\<rparr>) w1
            | (Inr u, c1, w1) \<Rightarrow>
                (case start_process E (m1\<lparr>connection := c1\<rparr>) w1 of
                   (Inl e, m2, w2) \<Rightarrow> start_except e m2 w2
                 | (Inr u, m2, w2) \<Rightarrow>
                     (let (t, w3) = now w2
                      in (Inr (), m2\<lparr>state := RUNNING, start_time := Some t\<rparr>, w3)))))"

definition stop :: "process_manager \<Rightarrow> process_manager" where
  "stop m =
     (if state m = STOPPED then m
      else (cleanup (m\<lparr>state := STOPPING\<rparr>))\<lparr>state := STOPPED, start_time := None\<rparr>)"

text \<open>
  \<^verbatim>\<open>_handle_crash\<close> and \<^verbatim>\<open>_run_server_process\<close>, the body of the background task: it
  runs the command on the device and, if that raises, records the crash.
\<close>

definition handle_crash :: "exn \<Rightarrow> process_manager \<Rightarrow> process_manager" where
  "handle_crash e m = cleanup (m\<lparr>state := ERROR, error := Some (exn_str e)\<rparr>)"

definition run_server_process :: "env \<Rightarrow> process_manager \<Rightarrow> string \<Rightarrow> world \<Rightarrow> process_manager \<times> world" where
  "run_server_process E m command w =
     (case shell E (connection m) command w of
        (Inl e, c1, w1) \<Rightarrow> (handle_crash e (m\<lparr>connection := c1\<rparr>), w1)
      | (Inr out, c1, w1) \<Rightarrow> (m\<lparr>connection := c1\<rparr>, w1))"

section \<open>Stream Fan-out Manager (\<^verbatim>\<open>ws/router.py\<close>)\<close>

text \<open>
  \<^verbatim>\<open>active_connections\<close> maps a serial to its set of WebSockets. The set is a list
  without duplicates, in the order in which the broadcast visits it: \<^verbatim>\<open>add\<close> appends an
  element that is not there yet, \<^verbatim>\<open>discard\<close> removes it.
\<close>

record connection_manager =
  active_connections :: "string \<rightharpoonup> websocket list"

definition ConnectionManager :: connection_manager where
  "ConnectionManager = \<lparr>active_connections = Map.empty\<rparr>"

definition set_add :: "'a \<Rightarrow> 'a list \<Rightarrow> 'a list" where
  "set_add x xs = (if x \<in> set xs then xs else xs @ [x])"

definition set_discard :: "'a \<Rightarrow> 'a list \<Rightarrow> 'a list" where
  "set_discard x xs = removeAll x xs"

text \<open>\<^verbatim>\<open>ConnectionManager.connect\<close>: the WebSocket is accepted before it is registered.\<close>

definition cm_connect :: "env \<Rightarrow> connection_manager \<Rightarrow> websocket \<Rightarrow> string \<Rightarrow> world \<Rightarrow> (exn + unit) \<times> connection_manager \<times> world" where
  "cm_connect E cm ws s w =
     (case ask_unit E (WsAccept ws) w of
        (Inl e, w1) \<Rightarrow> (Inl e, cm, w1)
      | (Inr u, w1) \<Rightarrow>
          (let m = active_connections cm;
               m1 = (case m s of None \<Rightarrow> m(s \<mapsto> []) | Some l \<Rightarrow> m)
           in case m1 s of
                None \<Rightarrow> (Inl (OtherException ''KeyError''), cm\<lparr>active_connections := m1\<rparr>, w1)
              | Some l \<Rightarrow> (Inr (), cm\<lparr>active_connections := m1(s \<mapsto> set_add ws l)\<rparr>, w1)))"

text \<open>\<^verbatim>\<open>ConnectionManager.disconnect\<close>.\<close>

definition cm_disconnect :: "connection_manager \<Rightarrow> websocket \<Rightarrow> string \<Rightarrow> (exn + unit) \<times> connection_manager" where
  "cm_disconnect cm ws s =
     (case active_connections cm s of
        None \<Rightarrow> (Inr (), cm)
      | Some l \<Rightarrow>
          (let l1 = set_discard ws l
           in if l1 = [] then (Inr (), cm\<lparr>active_connections := (active_connections cm)(s := None)\<rparr>)
              else (Inr (), cm\<lparr>active_connections := (active_connections cm)(s \<mapsto> l1)\<rparr>)))"

text \<open>
  \<^verbatim>\<open>connect\<close> and \<^verbatim>\<open>disconnect\<close> as another task runs them while a write of a broadcast
  is pending; their errors stay in that task. Neither suspends between its changes to the
  map, so each takes effect as a whole. \<open>live\<close> follows the set object that the broadcast
  iterates: it is the set registered for the serial until a detach empties it and deletes
  the key; a later attach registers a new set and the old one stays empty.
\<close>

fun run_task :: "env \<Rightarrow> fanout_op \<Rightarrow> connection_manager \<Rightarrow> world \<Rightarrow> connection_manager \<times> world" where
  "run_task E (Attach ws s) cm w = (case cm_connect E cm ws s w of (r, cm1, w1) \<Rightarrow> (cm1, w1))"
| "run_task E (Detach ws s) cm w = (case cm_disconnect cm ws s of (r, cm1) \<Rightarrow> (cm1, w))"

fun run_tasks :: "env \<Rightarrow> string \<Rightarrow> fanout_op list \<Rightarrow> bool \<Rightarrow> connection_manager \<Rightarrow> world \<Rightarrow> bool \<times> connection_manager \<times> world" where
  "run_tasks E s [] live cm w = (live, cm, w)"
| "run_tasks E s (t # ts) live cm w =
     (case run_task E t cm w of
        (cm1, w1) \<Rightarrow> run_tasks E s ts (live \<and> active_connections cm1 s \<noteq> None) cm1 w1)"

text \<open>The contents of the set object that the broadcast iterates.\<close>

definition iterated :: "bool \<Rightarrow> connection_manager \<Rightarrow> string \<Rightarrow> websocket list" where
  "iterated live cm s =
     (if live then (case active_connections cm s of Some l \<Rightarrow> l | None \<Rightarrow> []) else [])"

text \<open>
  The first loop of \<^verbatim>\<open>send_message\<close> and \<^verbatim>\<open>send_binary\<close>. The \<^verbatim>\<open>for\<close> statement iterates
  the set of the serial itself, not a copy, and the task is suspended at every write. The
  iterator remembers the size the set had when the loop began (\<open>used\<close>) and how far it has
  come (\<open>pos\<close>); each step first compares the size of the set with \<open>used\<close> and raises
  \<^verbatim>\<open>RuntimeError\<close> when another task has changed it. That happens in the \<^verbatim>\<open>for\<close>
  statement, outside the \<^verbatim>\<open>try\<close>, so the error leaves the broadcast. Inside the \<^verbatim>\<open>try\<close>,
  a WebSocket that is not in the connected state, or whose write raises, is added to the
  set \<^verbatim>\<open>disconnected\<close>. \<open>mk\<close> builds the write request (JSON or bytes). Positions are
  positions in the list: which elements the iteration still reaches after a change that
  kept the size depends on their hash values in the interpreter, and nothing proved below
  rests on it.
\<close>

function send_pass :: "env \<Rightarrow> (websocket \<Rightarrow> request) \<Rightarrow> string \<Rightarrow> nat \<Rightarrow> nat \<Rightarrow> bool \<Rightarrow> websocket list \<Rightarrow> connection_manager \<Rightarrow> world \<Rightarrow> (exn + websocket list) \<times> connection_manager \<times> world" where
  "send_pass E mk s used pos live disconnected cm w =
     (if length (iterated live cm s) \<noteq> used then
        (Inl (OtherException ''Set changed size during iteration''), cm, w)
      else if used \<le> pos then (Inr disconnected, cm, w)
      else
        (case ask_bool E (WsState (iterated live cm s ! pos)) w of
           (is_open, w1) \<Rightarrow>
             if is_open then
               (case ask_unit E (mk (iterated live cm s ! pos)) w1 of
                  (r, w2) \<Rightarrow>
                    (case run_tasks E s (env_tasks E (trace w2)) live cm w2 of
                       (live1, cm1, w3) \<Rightarrow>
                         send_pass E mk s used (Suc pos) live1
                           (case r of
                              Inl e \<Rightarrow> set_add (iterated live cm s ! pos) disconnected
                            | Inr u \<Rightarrow> disconnected)
                           cm1 w3))
             else
               send_pass E mk s used (Suc pos) live
                 (set_add (iterated live cm s ! pos) disconnected) cm w1))"
  by pat_completeness auto
termination
  by (relation "measure (\<lambda>(E, mk, s, used, pos, live, disconnected, cm, w). used - pos)") auto

text \<open>The second loop: every collected WebSocket is disconnected.\<close>

fun disconnect_all :: "connection_manager \<Rightarrow> websocket list \<Rightarrow> string \<Rightarrow> (exn + unit) \<times> connection_manager" where
  "disconnect_all cm [] s = (Inr (), cm)"
| "disconnect_all cm (ws # rest) s =
     (case cm_disconnect cm ws s of
        (Inl e, cm1) \<Rightarrow> (Inl e, cm1)
      | (Inr u, cm1) \<Rightarrow> disconnect_all cm1 rest s)"

text \<open>
  The body that \<^verbatim>\<open>send_message\<close> and \<^verbatim>\<open>send_binary\<close> share: nothing for a serial that
  is not a key; otherwise the first loop over the set of the serial, then the second loop.
\<close>

definition broadcast :: "env \<Rightarrow> (websocket \<Rightarrow> request) \<Rightarrow> connection_manager \<Rightarrow> string \<Rightarrow> world \<Rightarrow> (exn + unit) \<times> connection_manager \<times> world" where
  "broadcast E mk cm s w =
     (case active_connections cm s of
        None \<Rightarrow> (Inr (), cm, w)
      | Some l \<Rightarrow>
          (case send_pass E mk s (length l) 0 True [] cm w of
             (Inl e, cm1, w1) \<Rightarrow> (Inl e, cm1, w1)
           | (Inr disconnected, cm1, w1) \<Rightarrow>
               (case disconnect_all cm1 disconnected s of
                  (r, cm2) \<Rightarrow> (r, cm2, w1))))"

definition send_message :: "env \<Rightarrow> connection_manager \<Rightarrow> string \<Rightarrow> string \<Rightarrow> world \<Rightarrow> (exn + unit) \<times> connection_manager \<times> world" where
  "send_message E cm message s w = broadcast E (\<lambda>ws. WsSendJson ws message) cm s w"

definition send_binary :: "env \<Rightarrow> connection_manager \<Rightarrow> string \<Rightarrow> string \<Rightarrow> world \<Rightarrow> (exn + unit) \<times> connection_manager \<times> world" where
  "send_binary E cm data s w = broadcast E (\<lambda>ws. WsSendBytes ws data) cm s w"

section \<open>Notions the statements use\<close>

text \<open>
  In the specification's words: the text between the first and the second colon of a
  serial (up to the end when there is no second colon).
\<close>

definition between_colons :: "string \<Rightarrow> string" where
  "between_colons s =
     takeWhile (\<lambda>c. c \<noteq> CHR '':'') (tl (dropWhile (\<lambda>c. c \<noteq> CHR '':'') s))"

text \<open>
  The error taxonomy of the specification, and the kind each exception class of the code
  realises (by its name and its error code). No class of the code realises \<open>CommandFailed\<close>, and an exception that is not an
  application error has no kind.
\<close>

datatype spec_error =
    ConnectionFailed | DeviceOffline | DeviceNotFound | CommandFailed | DeployFailed
  | ProcessStartFailed | ProcessCrashed

fun spec_kind :: "exn \<Rightarrow> spec_error option" where
  "spec_kind (ADBConnectionError m d) = Some ConnectionFailed"
| "spec_kind (ADBDeviceNotFoundError s) = Some DeviceNotFound"
| "spec_kind (ADBDeviceOfflineError s) = Some DeviceOffline"
| "spec_kind (ScrcpyDeployError m d) = Some DeployFailed"
| "spec_kind (ScrcpyStartError m d) = Some ProcessStartFailed"
| "spec_kind (ScrcpyServerCrashError m d) = Some ProcessCrashed"
| "spec_kind (OtherException m) = None"

text \<open>
  Operations on the registry, for runs of it: a caller connects or disconnects a serial,
  or the health loop polls. An operation's error goes to its caller; the registry goes on.
\<close>

datatype registry_op = Connect string | Disconnect string | Poll

fun run_op :: "env \<Rightarrow> registry_op \<Rightarrow> device_manager \<times> world \<Rightarrow> device_manager \<times> world" where
  "run_op E (Connect s) (dm, w) = snd (connect_to_device E dm s w)"
| "run_op E (Disconnect s) (dm, w) = snd (disconnect_from_device E dm s w)"
| "run_op E Poll (dm, w) = snd (poll_devices E dm w)"

fun run_ops :: "env \<Rightarrow> registry_op list \<Rightarrow> device_manager \<times> world \<Rightarrow> device_manager \<times> world" where
  "run_ops E [] st = st"
| "run_ops E (op # ops) st = run_ops E ops (run_op E op st)"

text \<open>
  A run connects a serial when one of its \<open>connect_to_device\<close> calls for that serial
  returns a connection. A serial that a run does not connect was never connected: no connect
  was attempted for it, or every attempt raised.
\<close>

fun connects :: "env \<Rightarrow> registry_op list \<Rightarrow> device_manager \<times> world \<Rightarrow> string \<Rightarrow> bool" where
  "connects E [] st s = False"
| "connects E (op # ops) st s =
     ((op = Connect s \<and> \<not> isl (fst (connect_to_device E (fst st) s (snd st))))
      \<or> connects E ops (run_op E op st) s)"

text \<open>Every session is stored under its own serial.\<close>

definition devices_keyed :: "device_manager \<Rightarrow> bool" where
  "devices_keyed dm = list_all (\<lambda>(k, d). dev_serial d = k) (devices dm)"

text \<open>
  The invariant of the subscriber map: a serial that is a key has a non-empty set, stored
  without duplicates.
\<close>

definition subscribers_ok :: "connection_manager \<Rightarrow> bool" where
  "subscribers_ok cm =
     (\<forall>s l. active_connections cm s = Some l \<longrightarrow> l \<noteq> [] \<and> distinct l)"





text \<open>
  A request issued between two moments: \<open>h\<close> is the history at the moment the request at
  its head was issued, a part of the later trace \<open>t'\<close> that is longer than the earlier
  trace \<open>t\<close>. The environment's answer to that request is its answer to \<open>h\<close>.
\<close>

definition issued :: "request list \<Rightarrow> request list \<Rightarrow> request list \<Rightarrow> bool" where
  "issued t t' h = (suffix h t' \<and> length t < length h)"

text \<open>
  A subscriber that a broadcast pass drops: its state was not open when the pass looked at
  it, or the write to it raised. \<open>t\<close> and \<open>t'\<close> are the traces before and after the pass.
\<close>

definition dropped :: "env \<Rightarrow> (websocket \<Rightarrow> request) \<Rightarrow> request list \<Rightarrow> request list \<Rightarrow> websocket \<Rightarrow> bool" where
  "dropped E mk t t' ws =
     ((\<exists>h. issued t t' (WsState ws # h) \<and> \<not> env_bool E (WsState ws # h))
      \<or> (\<exists>h. issued t t' (mk ws # h) \<and> env_unit E (mk ws # h) \<noteq> None))"

text \<open>
  The first loop as the specification words it, a pass over the subscribers that the set
  holds when the broadcast begins: each is looked at in turn, written to when its state is
  open, and collected when it is not or the write raises. The loop of the source is this
  pass when no other task attaches or detaches a WebSocket while a write is awaited, which
  is what \<open>undisturbed\<close> says of an environment.
\<close>

fun pass_over :: "env \<Rightarrow> (websocket \<Rightarrow> request) \<Rightarrow> websocket list \<Rightarrow> websocket list \<Rightarrow> world \<Rightarrow> websocket list \<times> world" where
  "pass_over E mk [] disconnected w = (disconnected, w)"
| "pass_over E mk (ws # rest) disconnected w =
     (case ask_bool E (WsState ws) w of
        (is_open, w1) \<Rightarrow>
          if is_open then
            (case ask_unit E (mk ws) w1 of
               (Inl e, w2) \<Rightarrow> pass_over E mk rest (set_add ws disconnected) w2
             | (Inr u, w2) \<Rightarrow> pass_over E mk rest disconnected w2)
          else pass_over E mk rest (set_add ws disconnected) w1)"

definition undisturbed :: "env \<Rightarrow> bool" where
  "undisturbed E = (\<forall>h. env_tasks E h = [])"

section \<open>Concrete worlds and environments\<close>

text \<open>The empty history, and a connection to \<open>dev-1\<close> that is live.\<close>

definition w0 :: world where
  "w0 = \<lparr>trace = [], clock = 0\<rparr>"

definition live_connection :: "string \<Rightarrow> adb_connection" where
  "live_connection s =
     \<lparr>serial = s, host = ''127.0.0.1'', port = 5037, device = Some (''127.0.0.1'', 5037),
      connected = True, connection_time = Some 0, last_activity = Some 0\<rparr>"

definition mk_env :: "(request list \<Rightarrow> exn + string) \<Rightarrow> (request list \<Rightarrow> exn option) \<Rightarrow> (request list \<Rightarrow> bool) \<Rightarrow> env" where
  "mk_env txt unt bl =
     \<lparr>env_text = txt, env_unit = unt, env_bool = bl, env_tasks = (\<lambda>h. []),
      adb_host = ''127.0.0.1'',
      adb_port = 5037, scrcpy_server_path = ''/opt/scrcpy-server.jar''\<rparr>"

text \<open>An environment in which every request succeeds, with empty output.\<close>

definition env_ok :: env where
  "env_ok = mk_env (\<lambda>h. Inr []) (\<lambda>h. None) (\<lambda>h. True)"

text \<open>An environment in which the local server file does not exist.\<close>

definition env_no_artifact :: env where
  "env_no_artifact = mk_env (\<lambda>h. Inr []) (\<lambda>h. None) (\<lambda>h. False)"

text \<open>
  An environment in which the device answers \<open>exists\<close> to the presence query and every
  other command is cut off with an error, and in which the local server file is there the
  first time it is looked for and gone afterwards.
\<close>

definition env_crash :: env where
  "env_crash =
     mk_env
       (\<lambda>h. case h of
               AdbShell s cmd # rest \<Rightarrow>
                 if prefix ''test -f'' cmd then Inr ''exists''
                 else Inl (OtherException ''connection reset'')
             | _ \<Rightarrow> Inr [])
       (\<lambda>h. None)
       (\<lambda>h. length (filter (\<lambda>r. case r of PathExists p \<Rightarrow> True | _ \<Rightarrow> False) h) \<le> 1)"

text \<open>An environment in which the handshake is refused and there is no key file.\<close>

definition env_refuse :: env where
  "env_refuse =
     mk_env (\<lambda>h. Inr [])
       (\<lambda>h. case h of
               AdbConnect s hst p k # rest \<Rightarrow> Some (OtherException ''connection refused'')
             | _ \<Rightarrow> None)
       (\<lambda>h. False)"

text \<open>
  A session for a serial, a registry that tracks \<open>dev-1\<close> with a live connection, and one
  whose connection to \<open>dev-1\<close> has been closed by a caller since.
\<close>

definition session_of :: "string \<Rightarrow> adb_device" where
  "session_of s =
     \<lparr>dev_id = s, dev_serial = s, dev_model = ''Pixel'', dev_state = DEVICE,
      dev_transport_type = USB, dev_connection_time = 0, dev_manufacturer = Some ''Google'',
      dev_android_version = Some ''13'', dev_resolution = None\<rparr>"

definition closed_connection :: "string \<Rightarrow> adb_connection" where
  "closed_connection s = (live_connection s)\<lparr>device := None, connected := False\<rparr>"

definition registry_live :: device_manager where
  "registry_live =
     \<lparr>connections = [(''dev-1'', live_connection ''dev-1'')],
      devices = [(''dev-1'', session_of ''dev-1'')], running = True\<rparr>"

definition registry_stale :: device_manager where
  "registry_stale =
     \<lparr>connections = [(''dev-1'', closed_connection ''dev-1'')],
      devices = [(''dev-1'', session_of ''dev-1'')], running = True\<rparr>"

text \<open>
  A registry that tracks two live connections, and an environment in which no command
  gets through to a device and closing the transport of \<open>dev-1\<close> raises.
\<close>

definition registry_two :: device_manager where
  "registry_two =
     \<lparr>connections = [(''dev-1'', live_connection ''dev-1''), (''dev-2'', live_connection ''dev-2'')],
      devices = [(''dev-1'', session_of ''dev-1''), (''dev-2'', session_of ''dev-2'')],
      running = True\<rparr>"

definition env_dead :: env where
  "env_dead =
     mk_env (\<lambda>h. Inl (OtherException ''connection reset''))
       (\<lambda>h. case h of
               AdbClose s # rest \<Rightarrow>
                 if s = ''dev-1'' then Some (OtherException ''close failed'') else None
             | _ \<Rightarrow> None)
       (\<lambda>h. False)"








text \<open>
  Three viewers of \<open>dev-1\<close>: the first is open and its writes succeed, the second is no
  longer open, the third is open but every write to it raises.
\<close>

definition env_ws :: env where
  "env_ws =
     mk_env (\<lambda>h. Inr [])
       (\<lambda>h. case h of
               WsSendJson ws m # rest \<Rightarrow>
                 if ws = 3 then Some (OtherException ''broken pipe'') else None
             | WsSendBytes ws m # rest \<Rightarrow>
                 if ws = 3 then Some (OtherException ''broken pipe'') else None
             | _ \<Rightarrow> None)
       (\<lambda>h. case h of WsState ws # rest \<Rightarrow> ws \<noteq> 2 | _ \<Rightarrow> True)"

definition cm_three :: connection_manager where
  "cm_three = \<lparr>active_connections = [''dev-1'' \<mapsto> [1, 2, 3]]\<rparr>"

text \<open>
  Two schedules of the event loop for these viewers, all of them open. In the first, the
  first viewer goes away while the broadcast writes to it: the write raises, and the
  viewer's own handler detaches it before the broadcast goes on. In the second every write
  succeeds, and a fourth viewer attaches while the broadcast writes to the first.
\<close>

definition env_viewer_leaves :: env where
  "env_viewer_leaves =
     mk_env (\<lambda>h. Inr [])
       (\<lambda>h. case h of
               WsSendJson ws m # rest \<Rightarrow>
                 if ws = 1 then Some (OtherException ''broken pipe'') else None
             | WsSendBytes ws m # rest \<Rightarrow>
                 if ws = 1 then Some (OtherException ''broken pipe'') else None
             | _ \<Rightarrow> None)
       (\<lambda>h. True)
     \<lparr>env_tasks :=
        (\<lambda>h. case h of
                WsSendJson ws m # rest \<Rightarrow> if ws = 1 then [Detach 1 ''dev-1''] else []
              | WsSendBytes ws m # rest \<Rightarrow> if ws = 1 then [Detach 1 ''dev-1''] else []
              | _ \<Rightarrow> [])\<rparr>"

definition env_viewer_joins :: env where
  "env_viewer_joins =
     env_ok
     \<lparr>env_tasks :=
        (\<lambda>h. case h of
                WsSendJson ws m # rest \<Rightarrow> if ws = 1 then [Attach 4 ''dev-1''] else []
              | WsSendBytes ws m # rest \<Rightarrow> if ws = 1 then [Attach 4 ''dev-1''] else []
              | _ \<Rightarrow> [])\<rparr>"

text \<open>A new manager for \<open>dev-1\<close>, and one that is running.\<close>

definition fresh_manager :: process_manager where
  "fresh_manager = ScrcpyProcessManager (live_connection ''dev-1'') default_config"

definition running_manager :: process_manager where
  "running_manager = fresh_manager\<lparr>state := RUNNING, start_time := Some 7\<rparr>"

text \<open>
  A run of one manager under \<open>env_crash\<close>: it starts, its background task runs the server
  command, which fails, and the manager is started again.
\<close>

definition crash_started :: "(exn + unit) \<times> process_manager \<times> world" where
  "crash_started = start env_crash fresh_manager w0"

definition crash_crashed :: "process_manager \<times> world" where
  "crash_crashed =
     (case crash_started of
        (r, m, w) \<Rightarrow>
          (case process_task m of
             Some command \<Rightarrow> run_server_process env_crash m command w
           | None \<Rightarrow> (m, w)))"

definition crash_restarted :: "(exn + unit) \<times> process_manager \<times> world" where
  "crash_restarted = (case crash_crashed of (m, w) \<Rightarrow> start env_crash m w)"

section \<open>Properties: the Device Connection\<close>

lemma py_contains_colon: "py_contains '':'' s = (CHR '':'' \<in> set s)"
  by (induction s) auto

lemma split_from_colon_none:
  "CHR '':'' \<notin> set s \<Longrightarrow> split_from '':'' acc s = [rev acc @ s]"
  by (induction s arbitrary: acc) auto

lemma split_from_colon_some:
  "CHR '':'' \<in> set s \<Longrightarrow>
   split_from '':'' acc s =
     (rev acc @ takeWhile (\<lambda>c. c \<noteq> CHR '':'') s)
       # split_from '':'' [] (tl (dropWhile (\<lambda>c. c \<noteq> CHR '':'') s))"
  by (induction s arbitrary: acc) auto

lemma split_from_colon_first:
  "\<exists>ys. split_from '':'' acc s = (rev acc @ takeWhile (\<lambda>c. c \<noteq> CHR '':'') s) # ys"
proof (cases "CHR '':'' \<in> set s")
  case True
  then show ?thesis using split_from_colon_some [of s acc] by simp
next
  case False
  then have tw: "takeWhile (\<lambda>c. c \<noteq> CHR '':'') s = s"
    by (auto simp: takeWhile_eq_all_conv)
  show ?thesis
    unfolding tw using split_from_colon_none [OF False, of acc] by simp
qed

lemma py_split_colon_second:
  assumes "CHR '':'' \<in> set s"
  shows "\<exists>a rest. py_split s '':'' = a # between_colons s # rest"
proof -
  obtain ys where "split_from '':'' [] (tl (dropWhile (\<lambda>c. c \<noteq> CHR '':'') s)) = between_colons s # ys"
    using split_from_colon_first [of "[]" "tl (dropWhile (\<lambda>c. c \<noteq> CHR '':'') s)"]
    by (auto simp: between_colons_def)
  then show ?thesis
    using split_from_colon_some [OF assms, of "[]"] by (simp add: py_split_def)
qed

lemma parse_port_char:
  "parse_port_from_serial s d =
     (if CHR '':'' \<in> set s
      then (case py_int (between_colons s) of Some n \<Rightarrow> n | None \<Rightarrow> d)
      else d)"
proof (cases "CHR '':'' \<in> set s")
  case True
  then obtain a rest where "py_split s '':'' = a # between_colons s # rest"
    using py_split_colon_second by blast
  with True show ?thesis
    by (simp add: parse_port_from_serial_def py_contains_colon)
next
  case False
  then show ?thesis by (simp add: parse_port_from_serial_def py_contains_colon)
qed

text \<open>
  A text with more digits than the interpreter accepts does not parse: \<^verbatim>\<open>int\<close> raises
  \<^verbatim>\<open>ValueError\<close>, which the constructor catches, so that the port of such a serial is the
  default.
\<close>

lemma digits_val_over:
  "int_max_str_digits < k + length (filter is_digit cs) \<Longrightarrow> digits_val prev k acc cs = None"
  by (induction cs arbitrary: prev k acc) auto

lemma py_int_over: "py_int (replicate 4301 (CHR ''1'')) = None"
proof -
  have d: "is_digit (CHR ''1'')" and sp: "\<not> int_space (CHR ''1'')"
    by (simp_all add: is_digit_def int_space_def)
  have strip: "rev (dropWhile int_space (rev (dropWhile int_space (replicate 4301 (CHR ''1'')))))
                = CHR ''1'' # replicate 4300 (CHR ''1'')"
  proof -
    have r: "replicate 4301 (CHR ''1'') = CHR ''1'' # replicate 4300 (CHR ''1'')"
      using replicate_Suc [of 4300 "CHR ''1''"] by simp
    have "dropWhile int_space (replicate 4301 (CHR ''1'')) = replicate 4301 (CHR ''1'')"
      unfolding r using sp by simp
    then show ?thesis using r sp by simp
  qed
  have "digits_val False 0 0 (CHR ''1'' # replicate 4300 (CHR ''1'')) = None"
    by (rule digits_val_over) (simp add: d int_max_str_digits_def)
  then show ?thesis
    unfolding py_int_def strip by simp
qed

lemma port_of_long_serial:
  "port (ADBConnection (''h:'' @ replicate 4301 (CHR ''1'')) h d) = d"
proof -
  have "between_colons (''h:'' @ replicate 4301 (CHR ''1'')) = replicate 4301 (CHR ''1'')"
    by (simp add: between_colons_def takeWhile_eq_all_conv)
  then show ?thesis
    by (simp add: ADBConnection_def parse_port_char py_int_over)
qed

text \<open>
  C9. Constructing a connection derives the port without raising: when the serial has a
  colon and the text between the first and second colon parses as an integer, the port is
  that integer; for every other serial the port is the supplied default.
\<close>

theorem port_of_serial:
  "(CHR '':'' \<in> set s \<and> py_int (between_colons s) = Some n \<longrightarrow>
      port (ADBConnection s h d) = n)
   \<and> (\<not> (CHR '':'' \<in> set s \<and> py_int (between_colons s) \<noteq> None) \<longrightarrow>
      port (ADBConnection s h d) = d)"
  by (auto simp: ADBConnection_def parse_port_char)

lemma py_int_5555: "py_int ''5555'' = Some 5555"
  by (simp add: py_int_def int_space_def is_digit_def digit_val_def int_max_str_digits_def)

theorem port_of_serial_witness:
  "CHR '':'' \<in> set ''192.168.1.5:5555'' \<and> py_int (between_colons ''192.168.1.5:5555'') = Some 5555
   \<and> port (ADBConnection ''192.168.1.5:5555'' ''127.0.0.1'' 5037) = 5555
   \<and> \<not> (CHR '':'' \<in> set ''host:abc'' \<and> py_int (between_colons ''host:abc'') \<noteq> None)
   \<and> port (ADBConnection ''host:abc'' ''127.0.0.1'' 5037) = 5037
   \<and> \<not> (CHR '':'' \<in> set ''host:'' \<and> py_int (between_colons ''host:'') \<noteq> None)
   \<and> port (ADBConnection ''host:'' ''127.0.0.1'' 5037) = 5037
   \<and> \<not> (CHR '':'' \<in> set ''emulator-5554'' \<and> py_int (between_colons ''emulator-5554'') \<noteq> None)
   \<and> port (ADBConnection ''emulator-5554'' ''127.0.0.1'' 5037) = 5037"
proof -
  have a: "CHR '':'' \<in> set ''192.168.1.5:5555'' \<and> py_int (between_colons ''192.168.1.5:5555'') = Some 5555"
    by (simp add: between_colons_def py_int_5555)
  have b: "\<not> (CHR '':'' \<in> set ''host:abc'' \<and> py_int (between_colons ''host:abc'') \<noteq> None)"
    by (simp add: between_colons_def py_int_def int_space_def is_digit_def)
  have c: "\<not> (CHR '':'' \<in> set ''host:'' \<and> py_int (between_colons ''host:'') \<noteq> None)"
    by (simp add: between_colons_def py_int_def)
  have d: "\<not> (CHR '':'' \<in> set ''emulator-5554'' \<and> py_int (between_colons ''emulator-5554'') \<noteq> None)"
    by simp
  show ?thesis
    using a b c d
      port_of_serial [of "''192.168.1.5:5555''" 5555 "''127.0.0.1''" 5037]
      port_of_serial [of "''host:abc''" 0 "''127.0.0.1''" 5037]
      port_of_serial [of "''host:''" 0 "''127.0.0.1''" 5037]
      port_of_serial [of "''emulator-5554''" 0 "''127.0.0.1''" 5037]
    by blast
qed

section \<open>Properties: the Process Lifecycle Manager\<close>

lemmas io_defs = ask_text_def ask_unit_def ask_bool_def now_def

lemma cleanup_fields [simp]:
  "process_task (cleanup m) = None" "state (cleanup m) = state m"
  "error (cleanup m) = error m" "start_time (cleanup m) = start_time m"
  "config (cleanup m) = config m" "connection (cleanup m) = connection m"
  by (auto simp: cleanup_def split: option.splits)

lemma start_except_result:
  "start_except e m w = (r, m', w') \<Longrightarrow>
     (\<exists>msg d. r = Inl (ScrcpyStartError msg d)) \<and> r = Inl (ScrcpyStartError (exn_str e) (case e of ScrcpyStartError msg d \<Rightarrow> d | _ \<Rightarrow> Some (exn_str e))) \<and>
     state m' = ERROR \<and> error m' = Some (exn_str e) \<and>
     start_time m' = start_time m \<and> process_task m' = None \<and> config m' = config m"
  by (cases e) (auto simp: start_except_def Let_def)

lemma start_process_fields:
  "start_process E m w = (r, m', w') \<Longrightarrow>
     state m' = state m \<and> error m' = error m \<and> start_time m' = start_time m \<and> config m' = config m"
  by (auto simp: start_process_def Let_def io_defs split: option.splits)

lemma start_failure:
  assumes "start E m w = (Inl e, m', w')"
  shows "state m \<noteq> RUNNING \<and> state m' = ERROR \<and> error m' = Some (exn_str e)
         \<and> start_time m' = start_time m \<and> (\<exists>msg d. e = ScrcpyStartError msg d)
         \<and> process_task m' = None \<and> config m' = config m"
proof -
  have nr: "state m \<noteq> RUNNING" using assms by (auto simp: start_def)
  show ?thesis
  proof (cases "deploy E (connection m) w")
    case (fields r c1 w1)
    show ?thesis
    proof (cases r)
      case (Inl e1)
      with fields nr assms
      have "start_except e1 (m\<lparr>state := STARTING, error := None, connection := c1\<rparr>) w1 = (Inl e, m', w')"
        by (simp add: start_def Let_def)
      from start_except_result [OF this] nr show ?thesis by auto
    next
      case (Inr u)
      show ?thesis
      proof (cases "start_process E (m\<lparr>state := STARTING, error := None, connection := c1\<rparr>) w1")
        case (fields r2 m2 w2)
        note sp = start_process_fields [OF fields]
        show ?thesis
        proof (cases r2)
          case (Inl e2)
          with fields Inr \<open>deploy E (connection m) w = (r, c1, w1)\<close> nr assms
          have "start_except e2 m2 w2 = (Inl e, m', w')"
            by (simp add: start_def Let_def)
          from start_except_result [OF this] nr sp show ?thesis by auto
        next
          case (Inr u2)
          with fields \<open>r = Inr u\<close> \<open>deploy E (connection m) w = (r, c1, w1)\<close> nr assms
          show ?thesis
            by (simp add: start_def Let_def now_def)
        qed
      qed
    qed
  qed
qed

lemma start_success:
  assumes "start E m w = (Inr u, m', w')" "state m \<noteq> RUNNING"
  shows "state m' = RUNNING \<and> error m' = None \<and> start_time m' \<noteq> None \<and> config m' = config m"
proof (cases "deploy E (connection m) w")
  case (fields r c1 w1)
  show ?thesis
  proof (cases r)
    case (Inl e1)
    with fields assms
    have "start_except e1 (m\<lparr>state := STARTING, error := None, connection := c1\<rparr>) w1 = (Inr u, m', w')"
      by (simp add: start_def Let_def)
    from start_except_result [OF this] show ?thesis by auto
  next
    case (Inr u1)
    show ?thesis
    proof (cases "start_process E (m\<lparr>state := STARTING, error := None, connection := c1\<rparr>) w1")
      case (fields r2 m2 w2)
      note sp = start_process_fields [OF fields]
      show ?thesis
      proof (cases r2)
        case (Inl e2)
        with fields Inr \<open>deploy E (connection m) w = (r, c1, w1)\<close> assms
        have "start_except e2 m2 w2 = (Inr u, m', w')"
          by (simp add: start_def Let_def)
        from start_except_result [OF this] show ?thesis by auto
      next
        case (Inr u2)
        with fields \<open>r = Inr u1\<close> \<open>deploy E (connection m) w = (r, c1, w1)\<close> assms sp
        show ?thesis
          by (auto simp: start_def Let_def now_def)
      qed
    qed
  qed
qed

lemma stop_fields:
  "state m \<noteq> STOPPED \<Longrightarrow>
     state (stop m) = STOPPED \<and> start_time (stop m) = None \<and> error (stop m) = error m
     \<and> process_task (stop m) = None \<and> config (stop m) = config m"
  by (simp add: stop_def)

text \<open>
  C1, as amended. When \<open>start\<close> fails, the manager is in the error state, its error field
  holds the failure's message, its start time is what it was before the call (so unset on
  a new or stopped manager), the caller gets a \<open>ScrcpyStartError\<close>, and cleanup has run (no
  background task is left). A following \<open>stop\<close> leaves it stopped with the start time
  cleared, and the next successful \<open>start\<close> (after that stop, or directly) clears the error.
\<close>

theorem start_failure_then_stop:
  assumes "start E m w = (Inl e, m', w')"
  shows "state m' = ERROR \<and> error m' = Some (exn_str e) \<and> start_time m' = start_time m
         \<and> (\<exists>msg d. e = ScrcpyStartError msg d) \<and> process_task m' = None
         \<and> state (stop m') = STOPPED \<and> start_time (stop m') = None
         \<and> (\<forall>E2 w2 u m2 w3. start E2 (stop m') w2 = (Inr u, m2, w3) \<longrightarrow>
               state m2 = RUNNING \<and> error m2 = None)
         \<and> (\<forall>E2 w2 u m2 w3. start E2 m' w2 = (Inr u, m2, w3) \<longrightarrow>
               state m2 = RUNNING \<and> error m2 = None)"
proof -
  note f = start_failure [OF assms]
  then have ne: "state m' \<noteq> STOPPED" "state m' \<noteq> RUNNING" by auto
  note s = stop_fields [OF ne(1)]
  have "state (stop m') \<noteq> RUNNING" using s by auto
  then have a: "\<forall>E2 w2 u m2 w3. start E2 (stop m') w2 = (Inr u, m2, w3) \<longrightarrow>
               state m2 = RUNNING \<and> error m2 = None"
    using start_success by blast
  have b: "\<forall>E2 w2 u m2 w3. start E2 m' w2 = (Inr u, m2, w3) \<longrightarrow>
               state m2 = RUNNING \<and> error m2 = None"
    using start_success ne(2) by blast
  show ?thesis using f s a b by blast
qed

lemma failed_start_val:
  "start env_no_artifact fresh_manager w0 =
     (Inl (ScrcpyStartError
        (''SCRCpy server file not found at /opt/scrcpy-server.jar. '' @
         ''Please ensure scrcpy-server.jar is available.'')
        (Some (''SCRCpy server file not found at /opt/scrcpy-server.jar. '' @
               ''Please ensure scrcpy-server.jar is available.''))),
      fresh_manager\<lparr>state := ERROR,
        error := Some (''SCRCpy server file not found at /opt/scrcpy-server.jar. '' @
                       ''Please ensure scrcpy-server.jar is available.'')\<rparr>,
      \<lparr>trace = [PathExists ''/opt/scrcpy-server.jar''], clock = 0\<rparr>)"
  by (simp add: start_def deploy_def io_defs env_no_artifact_def mk_env_def start_except_def
      cleanup_def Let_def fresh_manager_def ScrcpyProcessManager_def w0_def)

lemma build_command_not_test: "\<not> prefix ''test -f'' (build_command E cfg)"
  by (simp add: build_command_def)

lemma crash_started_val:
  "crash_started =
     (Inr (),
      \<lparr>connection = (live_connection ''dev-1'')\<lparr>last_activity := Some 0\<rparr>,
       config = default_config, state = RUNNING, start_time = Some 1, error = None,
       process_task = Some (build_command env_crash default_config)\<rparr>,
      \<lparr>trace = [CreateTask (build_command env_crash default_config),
                AdbShell ''dev-1'' (''test -f '' @ SERVER_REMOTE_PATH @ '' && echo exists''),
                PathExists ''/opt/scrcpy-server.jar''],
       clock = 2\<rparr>)"
  by (simp add: crash_started_def start_def deploy_def is_server_deployed_def shell_def
      is_connected_def live_connection_def fresh_manager_def ScrcpyProcessManager_def env_crash_def mk_env_def
      w0_def io_defs start_process_def Let_def py_strip_def py_isspace_def)


lemma crash_crashed_val:
  "crash_crashed =
     (\<lparr>connection = (live_connection ''dev-1'')\<lparr>last_activity := Some 2\<rparr>,
       config = default_config, state = ERROR, start_time = Some 1,
       error = Some ''connection reset'', process_task = None\<rparr>,
      \<lparr>trace = [AdbShell ''dev-1'' (build_command env_crash default_config),
                CreateTask (build_command env_crash default_config),
                AdbShell ''dev-1'' (''test -f '' @ SERVER_REMOTE_PATH @ '' && echo exists''),
                PathExists ''/opt/scrcpy-server.jar''],
       clock = 3\<rparr>)"
proof -
  have np: "\<not> prefix ''test -f'' (build_command env_crash default_config)"
    by (rule build_command_not_test)
  show ?thesis
    using np
    by (simp add: crash_crashed_def crash_started_val run_server_process_def shell_def
        is_connected_def live_connection_def handle_crash_def cleanup_def io_defs
        env_crash_def mk_env_def)
qed

lemma restart_after_stop_val:
  "fst (start env_crash (stop (fst (snd (start env_no_artifact fresh_manager w0)))) w0) = Inr ()"
  unfolding failed_start_val
  by (simp add: stop_def cleanup_def fresh_manager_def ScrcpyProcessManager_def
      start_def deploy_def is_server_deployed_def shell_def is_connected_def
      live_connection_def env_crash_def mk_env_def w0_def io_defs start_process_def Let_def
      py_strip_def py_isspace_def)

theorem start_failure_then_stop_witness:
  "isl (fst (start env_no_artifact fresh_manager w0))
   \<and> state (fst (snd (start env_no_artifact fresh_manager w0))) = ERROR
   \<and> error (fst (snd (start env_no_artifact fresh_manager w0))) \<noteq> None
   \<and> start_time (fst (snd (start env_no_artifact fresh_manager w0))) = None
   \<and> process_task (fst (snd (start env_no_artifact fresh_manager w0))) = None
   \<and> state (stop (fst (snd (start env_no_artifact fresh_manager w0)))) = STOPPED
   \<and> start_time (stop (fst (snd (start env_no_artifact fresh_manager w0)))) = None
   \<and> fst (start env_crash (stop (fst (snd (start env_no_artifact fresh_manager w0)))) w0) = Inr ()
   \<and> state (fst (snd (start env_crash (stop (fst (snd (start env_no_artifact fresh_manager w0)))) w0))) = RUNNING
   \<and> error (fst (snd (start env_crash (stop (fst (snd (start env_no_artifact fresh_manager w0)))) w0))) = None"
proof -
  obtain e m1 w1 where v: "start env_no_artifact fresh_manager w0 = (Inl e, m1, w1)"
    using failed_start_val by blast
  obtain m2 w2 where r: "start env_crash (stop m1) w0 = (Inr (), m2, w2)"
    using restart_after_stop_val v by (cases "start env_crash (stop m1) w0") auto
  have st: "start_time fresh_manager = None"
    by (simp add: fresh_manager_def ScrcpyProcessManager_def)
  show ?thesis
    using start_failure_then_stop [OF v] v r st by auto
qed

text \<open>
  C1 as stated fails: a manager that ran and whose background task crashed is in the error
  state with its start time still set, and a failing \<open>start\<close> on it leaves the start time
  set.
\<close>

theorem failed_start_keeps_start_time:
  "state (fst crash_crashed) = ERROR
   \<and> start_time (fst crash_crashed) = Some 1
   \<and> isl (fst crash_restarted)
   \<and> state (fst (snd crash_restarted)) = ERROR
   \<and> start_time (fst (snd crash_restarted)) = Some 1"
  by (simp add: crash_restarted_def crash_crashed_val start_def deploy_def io_defs
      env_crash_def mk_env_def start_except_def cleanup_def Let_def)

text \<open>
  C6. \<open>start\<close> on a running manager returns without an error and changes nothing (neither
  the manager nor the outside world); \<open>stop\<close> on a stopped manager changes nothing.
\<close>

theorem start_running_stop_stopped_noop:
  "(state m = RUNNING \<longrightarrow> start E m w = (Inr (), m, w))
   \<and> (state m = STOPPED \<longrightarrow> stop m = m)"
  by (simp add: start_def stop_def)

theorem start_running_stop_stopped_noop_witness:
  "state running_manager = RUNNING
   \<and> start env_no_artifact running_manager w0 = (Inr (), running_manager, w0)
   \<and> state fresh_manager = STOPPED
   \<and> stop fresh_manager = fresh_manager"
proof -
  have a: "state running_manager = RUNNING"
    by (simp add: running_manager_def)
  have b: "state fresh_manager = STOPPED"
    by (simp add: fresh_manager_def ScrcpyProcessManager_def)
  show ?thesis
    using a b start_running_stop_stopped_noop [of running_manager env_no_artifact w0]
      start_running_stop_stopped_noop [of fresh_manager env_no_artifact w0]
    by blast
qed

section \<open>Properties: commands on a Device Connection\<close>

lemma shell_offline:
  "\<not> is_connected c \<Longrightarrow> shell E c cmd w = (Inl (ADBDeviceOfflineError (serial c)), c, w)"
  by (simp add: shell_def)

lemma shell_online:
  "is_connected c \<Longrightarrow>
   shell E c cmd w =
     (env_text E (AdbShell (serial c) cmd # trace w),
      c\<lparr>last_activity := Some (clock w)\<rparr>,
      w\<lparr>clock := Suc (clock w), trace := AdbShell (serial c) cmd # trace w\<rparr>)"
  by (auto simp: shell_def is_connected_def io_defs)

lemma push_offline:
  "\<not> is_connected c \<Longrightarrow> push E c lp dp w = (Inl (ADBDeviceOfflineError (serial c)), c, w)"
  by (simp add: push_def)

lemma pull_offline:
  "\<not> is_connected c \<Longrightarrow> pull E c dp lp w = (Inl (ADBDeviceOfflineError (serial c)), c, w)"
  by (simp add: pull_def)

lemma push_online:
  "is_connected c \<Longrightarrow>
   fst (push E c lp dp w) =
     (case env_text E (ReadFile lp # trace w) of
        Inl e \<Rightarrow> Inl e
      | Inr data \<Rightarrow>
          (case env_unit E (AdbPush (serial c) data dp # ReadFile lp # trace w) of
             Some e \<Rightarrow> Inl e | None \<Rightarrow> Inr ()))
   \<and> fst (snd (push E c lp dp w)) = c\<lparr>last_activity := Some (clock w)\<rparr>"
  by (auto simp: push_def is_connected_def io_defs split: sum.splits option.splits)

lemma pull_online:
  "is_connected c \<Longrightarrow>
   fst (pull E c dp lp w) =
     (case env_text E (AdbPull (serial c) dp # trace w) of
        Inl e \<Rightarrow> Inl e
      | Inr data \<Rightarrow>
          (case env_unit E (WriteFile lp data # AdbPull (serial c) dp # trace w) of
             Some e \<Rightarrow> Inl e | None \<Rightarrow> Inr ()))
   \<and> fst (snd (pull E c dp lp w)) = c\<lparr>last_activity := Some (clock w)\<rparr>"
  by (auto simp: pull_def is_connected_def io_defs split: sum.splits option.splits)

lemma health_check_offline:
  "\<not> is_connected c \<Longrightarrow> health_check E c w = (Inr False, c, w)"
  by (simp add: health_check_def health_check_body_def)

lemma health_check_online:
  "is_connected c \<Longrightarrow>
   health_check E c w =
     (case env_text E (AdbShell (serial c) ''echo ping'' # trace w) of
        Inl e \<Rightarrow>
          (Inr False, c\<lparr>last_activity := Some (clock w)\<rparr>,
           w\<lparr>clock := Suc (clock w), trace := AdbShell (serial c) ''echo ping'' # trace w\<rparr>)
      | Inr out \<Rightarrow>
          (Inr True, c\<lparr>last_activity := Some (Suc (clock w))\<rparr>,
           w\<lparr>clock := Suc (Suc (clock w)), trace := AdbShell (serial c) ''echo ping'' # trace w\<rparr>))"
  by (simp add: health_check_def health_check_body_def shell_online now_def split: sum.splits)

lemma health_check_total: "\<exists>b. fst (health_check E c w) = Inr b"
  by (cases "is_connected c")
     (auto simp: health_check_offline health_check_online split: sum.splits)

text \<open>
  C7, as amended. \<open>shell\<close>, \<open>push\<close> and \<open>pull\<close> fail with \<open>ADBDeviceOfflineError\<close> when the
  connection is not connected, leaving everything as it was. On a connected one the
  activity stamp is set to the time of the call and the result is the library's own: its
  output on success, and on failure its error, unchanged (not wrapped in an application
  error). \<open>health_check\<close> never raises: it is \<open>False\<close> when disconnected or when the
  round trip fails, and \<open>True\<close> exactly when the round trip succeeds.
\<close>

theorem connection_commands:
  "(\<not> is_connected c \<longrightarrow>
      shell E c cmd w = (Inl (ADBDeviceOfflineError (serial c)), c, w)
      \<and> push E c lp dp w = (Inl (ADBDeviceOfflineError (serial c)), c, w)
      \<and> pull E c dp lp w = (Inl (ADBDeviceOfflineError (serial c)), c, w)
      \<and> fst (health_check E c w) = Inr False)
   \<and> (is_connected c \<longrightarrow>
      fst (shell E c cmd w) = env_text E (AdbShell (serial c) cmd # trace w)
      \<and> last_activity (fst (snd (shell E c cmd w))) = Some (clock w)
      \<and> fst (push E c lp dp w) =
          (case env_text E (ReadFile lp # trace w) of
             Inl e \<Rightarrow> Inl e
           | Inr data \<Rightarrow>
               (case env_unit E (AdbPush (serial c) data dp # ReadFile lp # trace w) of
                  Some e \<Rightarrow> Inl e | None \<Rightarrow> Inr ()))
      \<and> last_activity (fst (snd (push E c lp dp w))) = Some (clock w)
      \<and> fst (pull E c dp lp w) =
          (case env_text E (AdbPull (serial c) dp # trace w) of
             Inl e \<Rightarrow> Inl e
           | Inr data \<Rightarrow>
               (case env_unit E (WriteFile lp data # AdbPull (serial c) dp # trace w) of
                  Some e \<Rightarrow> Inl e | None \<Rightarrow> Inr ()))
      \<and> last_activity (fst (snd (pull E c dp lp w))) = Some (clock w)
      \<and> fst (health_check E c w) =
          Inr (\<not> isl (env_text E (AdbShell (serial c) ''echo ping'' # trace w))))
   \<and> (\<exists>b. fst (health_check E c w) = Inr b)"
proof (cases "is_connected c")
  case True
  then show ?thesis
    using health_check_total [of E c w]
    by (auto simp: shell_online push_online pull_online health_check_online split: sum.splits)
next
  case False
  then show ?thesis
    by (auto simp: shell_offline push_offline pull_offline health_check_offline)
qed

theorem connection_commands_witness:
  "\<not> is_connected (ADBConnection ''dev-1'' ''127.0.0.1'' 5037)
   \<and> fst (shell env_ok (ADBConnection ''dev-1'' ''127.0.0.1'' 5037) ''id'' w0)
       = Inl (ADBDeviceOfflineError ''dev-1'')
   \<and> fst (push env_ok (ADBConnection ''dev-1'' ''127.0.0.1'' 5037) ''a'' ''b'' w0)
       = Inl (ADBDeviceOfflineError ''dev-1'')
   \<and> fst (pull env_ok (ADBConnection ''dev-1'' ''127.0.0.1'' 5037) ''b'' ''a'' w0)
       = Inl (ADBDeviceOfflineError ''dev-1'')
   \<and> fst (health_check env_ok (ADBConnection ''dev-1'' ''127.0.0.1'' 5037) w0) = Inr False
   \<and> is_connected (live_connection ''dev-1'')
   \<and> fst (shell env_ok (live_connection ''dev-1'') ''id'' w0) = Inr []
   \<and> last_activity (fst (snd (shell env_ok (live_connection ''dev-1'') ''id'' w0))) = Some 0
   \<and> fst (health_check env_ok (live_connection ''dev-1'') w0) = Inr True
   \<and> fst (health_check env_crash (live_connection ''dev-1'') w0) = Inr False"
proof -
  have off: "\<not> is_connected (ADBConnection ''dev-1'' ''127.0.0.1'' 5037)"
    by (simp add: is_connected_def ADBConnection_def)
  have on: "is_connected (live_connection ''dev-1'')"
    by (simp add: is_connected_def live_connection_def)
  have s: "serial (ADBConnection ''dev-1'' ''127.0.0.1'' 5037) = ''dev-1''"
    "serial (live_connection ''dev-1'') = ''dev-1''"
    by (simp_all add: ADBConnection_def live_connection_def)
  have e: "env_text env_ok (AdbShell ''dev-1'' ''id'' # trace w0) = Inr []"
    "env_text env_ok (AdbShell ''dev-1'' ''echo ping'' # trace w0) = Inr []"
    "env_text env_crash (AdbShell ''dev-1'' ''echo ping'' # trace w0)
       = Inl (OtherException ''connection reset'')"
    "clock w0 = 0"
    by (simp_all add: env_ok_def env_crash_def mk_env_def w0_def)
  show ?thesis
    using off on
      connection_commands [of "ADBConnection ''dev-1'' ''127.0.0.1'' 5037" env_ok "''id''" w0 "''a''" "''b''"]
      connection_commands [of "live_connection ''dev-1''" env_ok "''id''" w0 "''a''" "''b''"]
      connection_commands [of "live_connection ''dev-1''" env_crash "''id''" w0 "''a''" "''b''"]
    by (simp add: s e)
qed

text \<open>
  C7 as stated fails: the error of a failing command reaches the caller as the library
  raised it, which is no \<open>CommandFailed\<close> (and no application error at all).
\<close>

theorem transport_error_not_command_failed:
  "is_connected (live_connection ''dev-1'')
   \<and> fst (shell env_crash (live_connection ''dev-1'') ''id'' w0)
       = Inl (OtherException ''connection reset'')
   \<and> spec_kind (OtherException ''connection reset'') = None"
  by (simp add: shell_def is_connected_def live_connection_def io_defs env_crash_def mk_env_def
      w0_def)

section \<open>Properties: the Device Registry\<close>

lemma connect_serial: "serial (fst (snd (connect E c w))) = serial c"
  by (simp add: connect_def Let_def io_defs split: prod.splits sum.splits option.splits)

lemma connect_ok_connected:
  "connect E c w = (Inr u, c1, w1) \<Longrightarrow> is_connected c1"
  by (auto simp: connect_def Let_def io_defs is_connected_def split: prod.splits sum.splits option.splits if_splits)

lemma shell_conn:
  "shell E c cmd w = (r, c1, w1) \<Longrightarrow>
     serial c1 = serial c \<and> connected c1 = connected c \<and> device c1 = device c
     \<and> connection_time c1 = connection_time c"
  by (auto simp: shell_def Let_def io_defs split: if_splits)

lemma get_device_info_conn:
  "get_device_info E c w = (r, c1, w1) \<Longrightarrow>
     serial c1 = serial c \<and> connected c1 = connected c \<and> device c1 = device c"
  unfolding get_device_info_def
  by (auto simp: Let_def split: prod.splits sum.splits dest!: shell_conn)

lemma get_device_info_serial:
  "get_device_info E c w = (Inr info, c1, w1) \<Longrightarrow> dev_serial info = serial c"
  unfolding get_device_info_def
  by (auto simp: Let_def split: prod.splits sum.splits dest!: shell_conn)


lemma connect_new_fail:
  "connect_new E dm s w = (Inl e, dm', w') \<Longrightarrow> dm' = dm"
  by (auto simp: connect_new_def split: prod.splits sum.splits)

lemma connect_new_fail_iff:
  "fst (connect_new E dm s w) = Inl e \<longleftrightarrow>
     (fst (connect E (ADBConnection s (adb_host E) (adb_port E)) w) = Inl e
      \<or> (\<exists>u c1 w1. connect E (ADBConnection s (adb_host E) (adb_port E)) w = (Inr u, c1, w1)
            \<and> fst (get_device_info E c1 w1) = Inl e))"
  by (auto simp: connect_new_def split: prod.splits sum.splits)

lemma connect_new_ok:
  assumes "connect_new E dm s w = (Inr c, dm', w')"
  shows "is_connected c \<and> serial c = s
         \<and> (\<exists>info. dev_serial info = s
               \<and> dm' = dm\<lparr>connections := AList.update s c (connections dm),
                            devices := AList.update s info (devices dm)\<rparr>)"
proof -
  obtain u c1 w1 where c: "connect E (ADBConnection s (adb_host E) (adb_port E)) w = (Inr u, c1, w1)"
    using assms by (auto simp: connect_new_def split: prod.splits sum.splits)
  then obtain info where g: "get_device_info E c1 w1 = (Inr info, c, w')"
    and d: "dm' = dm\<lparr>connections := AList.update s c (connections dm),
                        devices := AList.update s info (devices dm)\<rparr>"
    using assms by (auto simp: connect_new_def split: prod.splits sum.splits)
  have s1: "serial c1 = s"
    using connect_serial [of E "ADBConnection s (adb_host E) (adb_port E)" w] c
    by (simp add: ADBConnection_def)
  have "is_connected c1" using connect_ok_connected [OF c] .
  then have "is_connected c"
    using get_device_info_conn [OF g] by (simp add: is_connected_def)
  moreover have "serial c = s" using get_device_info_conn [OF g] s1 by simp
  moreover have "dev_serial info = s" using get_device_info_serial [OF g] s1 by simp
  ultimately show ?thesis using d by blast
qed

lemma connect_to_device_existing:
  "map_of (connections dm) s = Some c \<Longrightarrow> is_connected c \<Longrightarrow>
     connect_to_device E dm s w = (Inr c, dm, w)"
  by (simp add: connect_to_device_def)

lemma connect_to_device_new:
  "\<not> (\<exists>c. map_of (connections dm) s = Some c \<and> is_connected c) \<Longrightarrow>
     connect_to_device E dm s w = connect_new E dm s w"
  by (auto simp: connect_to_device_def split: option.splits)

text \<open>
  C2, as amended. \<open>connect_to_device\<close> returns the registered connection, with the registry
  and the world untouched, when the serial has a connected one. Otherwise it creates a
  connection, performs the handshake and queries the device, and it fails exactly when one
  of the two fails, with that very error; a failure leaves both maps as they were. On
  success the new connection is connected and published under the serial together with its
  session, and the entries of other serials are unchanged.
\<close>

theorem connect_to_device_outcomes:
  "(\<forall>c. map_of (connections dm) s = Some c \<and> is_connected c \<longrightarrow>
       connect_to_device E dm s w = (Inr c, dm, w))
   \<and> (\<not> (\<exists>c. map_of (connections dm) s = Some c \<and> is_connected c) \<longrightarrow>
       (\<forall>e. fst (connect_to_device E dm s w) = Inl e \<longleftrightarrow>
          (fst (connect E (ADBConnection s (adb_host E) (adb_port E)) w) = Inl e
           \<or> (\<exists>u c1 w1. connect E (ADBConnection s (adb_host E) (adb_port E)) w = (Inr u, c1, w1)
                 \<and> fst (get_device_info E c1 w1) = Inl e)))
       \<and> (\<forall>e dm' w'. connect_to_device E dm s w = (Inl e, dm', w') \<longrightarrow> dm' = dm)
       \<and> (\<forall>c dm' w'. connect_to_device E dm s w = (Inr c, dm', w') \<longrightarrow>
             is_connected c \<and> serial c = s
             \<and> get_connection dm' s = Inr c
             \<and> (\<exists>info. get_device dm' s = Some info \<and> dev_serial info = s)
             \<and> (\<forall>s'. s' \<noteq> s \<longrightarrow> get_connection dm' s' = get_connection dm s'
                                  \<and> get_device dm' s' = get_device dm s')))"
proof (cases "\<exists>c. map_of (connections dm) s = Some c \<and> is_connected c")
  case True
  then show ?thesis by (auto simp: connect_to_device_existing)
next
  case False
  note n = connect_to_device_new [OF False]
  have a: "\<forall>e. fst (connect_to_device E dm s w) = Inl e \<longleftrightarrow>
          (fst (connect E (ADBConnection s (adb_host E) (adb_port E)) w) = Inl e
           \<or> (\<exists>u c1 w1. connect E (ADBConnection s (adb_host E) (adb_port E)) w = (Inr u, c1, w1)
                 \<and> fst (get_device_info E c1 w1) = Inl e))"
    unfolding n using connect_new_fail_iff by blast
  have b: "\<forall>e dm' w'. connect_to_device E dm s w = (Inl e, dm', w') \<longrightarrow> dm' = dm"
    unfolding n using connect_new_fail by blast
  have c: "\<forall>c dm' w'. connect_to_device E dm s w = (Inr c, dm', w') \<longrightarrow>
             is_connected c \<and> serial c = s
             \<and> get_connection dm' s = Inr c
             \<and> (\<exists>info. get_device dm' s = Some info \<and> dev_serial info = s)
             \<and> (\<forall>s'. s' \<noteq> s \<longrightarrow> get_connection dm' s' = get_connection dm s'
                                  \<and> get_device dm' s' = get_device dm s')"
  proof (intro allI impI)
    fix c dm' w'
    assume "connect_to_device E dm s w = (Inr c, dm', w')"
    then have "connect_new E dm s w = (Inr c, dm', w')" using n by simp
    from connect_new_ok [OF this]
    show "is_connected c \<and> serial c = s
             \<and> get_connection dm' s = Inr c
             \<and> (\<exists>info. get_device dm' s = Some info \<and> dev_serial info = s)
             \<and> (\<forall>s'. s' \<noteq> s \<longrightarrow> get_connection dm' s' = get_connection dm s'
                                  \<and> get_device dm' s' = get_device dm s')"
      by (auto simp: get_connection_def get_device_def update_conv')
  qed
  show ?thesis using False a b c by blast
qed

lemma connect_refused:
  "connect env_refuse (ADBConnection ''dev-1'' ''127.0.0.1'' 5037) w0 =
     (Inl (OtherException ''connection refused''),
      (ADBConnection ''dev-1'' ''127.0.0.1'' 5037)\<lparr>device := Some (''127.0.0.1'', 5037)\<rparr>,
      \<lparr>trace = [AdbConnect ''dev-1'' ''127.0.0.1'' 5037 False, PathExists ''~/.android/adbkey''],
       clock = 0\<rparr>)"
  by (simp add: connect_def env_refuse_def mk_env_def io_defs w0_def Let_def ADBConnection_def
      parse_port_from_serial_def)

lemma connect_ok_val:
  "connect env_ok (ADBConnection ''dev-1'' ''127.0.0.1'' 5037) w0 =
     (Inr (),
      \<lparr>serial = ''dev-1'', host = ''127.0.0.1'', port = 5037,
       device = Some (''127.0.0.1'', 5037), connected = True, connection_time = Some 0,
       last_activity = Some 1\<rparr>,
      \<lparr>trace = [AdbConnect ''dev-1'' ''127.0.0.1'' 5037 True, LoadSigner ''~/.android/adbkey'',
                PathExists ''~/.android/adbkey''],
       clock = 2\<rparr>)"
  by (simp add: connect_def env_ok_def mk_env_def io_defs w0_def Let_def ADBConnection_def
      parse_port_from_serial_def)

lemma get_device_info_ok:
  assumes "is_connected c" "\<forall>h. \<exists>out. env_text E h = Inr out"
  shows "\<exists>info. fst (get_device_info E c w) = Inr info"
proof -
  have sh: "\<And>c cmd w. is_connected c \<Longrightarrow>
            \<exists>out c1 w1. shell E c cmd w = (Inr out, c1, w1) \<and> is_connected c1"
    using assms(2) by (auto simp: shell_online is_connected_def)
  obtain o1 c1 w1 where s1: "shell E c ''getprop ro.product.model'' w = (Inr o1, c1, w1)"
    and k1: "is_connected c1" using sh [OF assms(1)] by blast
  obtain o2 c2 w2 where s2: "shell E c1 ''getprop ro.product.manufacturer'' w1 = (Inr o2, c2, w2)"
    and k2: "is_connected c2" using sh [OF k1] by blast
  obtain o3 c3 w3 where s3: "shell E c2 ''getprop ro.build.version.release'' w2 = (Inr o3, c3, w3)"
    and k3: "is_connected c3" using sh [OF k2] by blast
  obtain o4 c4 w4 where s4: "shell E c3 ''wm size'' w3 = (Inr o4, c4, w4)"
    using sh [OF k3] by blast
  show ?thesis
    by (simp add: get_device_info_def s1 s2 s3 s4 Let_def split: prod.splits)
qed

lemma connect_to_device_ok_val:
  "\<exists>c. fst (connect_to_device env_ok ADBDeviceManager ''dev-1'' w0) = Inr c"
proof -
  have h: "adb_host env_ok = ''127.0.0.1''" "adb_port env_ok = 5037"
    by (simp_all add: env_ok_def mk_env_def)
  have t: "\<forall>h. \<exists>out. env_text env_ok h = Inr out"
    by (simp add: env_ok_def mk_env_def)
  obtain c1 w1 where c: "connect env_ok (ADBConnection ''dev-1'' ''127.0.0.1'' 5037) w0 = (Inr (), c1, w1)"
    using connect_ok_val by blast
  have "is_connected c1" using connect_ok_connected [OF c] .
  from get_device_info_ok [OF this t, of w1]
  obtain info where "fst (get_device_info env_ok c1 w1) = Inr info" by blast
  then show ?thesis
    by (cases "get_device_info env_ok c1 w1")
       (simp add: connect_to_device_def ADBDeviceManager_def connect_new_def h c)
qed

text \<open>
  C2 as stated fails twice: a refused handshake reaches the caller as the library's own
  error, not as a connection failure of the application; and where the registry holds a
  closed connection for the serial (the case the stream start handles by connecting
  again), a failed connect leaves that serial in both maps.
\<close>

theorem connect_failure_raw_error:
  "fst (connect_to_device env_refuse ADBDeviceManager ''dev-1'' w0)
     = Inl (OtherException ''connection refused'')
   \<and> spec_kind (OtherException ''connection refused'') = None
   \<and> fst (connect_to_device env_refuse registry_stale ''dev-1'' w0)
     = Inl (OtherException ''connection refused'')
   \<and> get_connection (fst (snd (connect_to_device env_refuse registry_stale ''dev-1'' w0))) ''dev-1''
     = Inr (closed_connection ''dev-1'')
   \<and> get_device (fst (snd (connect_to_device env_refuse registry_stale ''dev-1'' w0))) ''dev-1''
     = Some (session_of ''dev-1'')"
proof -
  have h: "adb_host env_refuse = ''127.0.0.1''" "adb_port env_refuse = 5037"
    by (simp_all add: env_refuse_def mk_env_def)
  show ?thesis
    by (simp add: connect_to_device_def connect_new_def h connect_refused ADBDeviceManager_def
        registry_stale_def closed_connection_def is_connected_def get_connection_def
        get_device_def)
qed


theorem connect_to_device_outcomes_witness:
  "map_of (connections registry_live) ''dev-1'' = Some (live_connection ''dev-1'')
   \<and> is_connected (live_connection ''dev-1'')
   \<and> connect_to_device env_refuse registry_live ''dev-1'' w0
       = (Inr (live_connection ''dev-1''), registry_live, w0)
   \<and> \<not> (\<exists>c. map_of (connections ADBDeviceManager) ''dev-1'' = Some c \<and> is_connected c)
   \<and> fst (connect_to_device env_refuse ADBDeviceManager ''dev-1'' w0)
       = Inl (OtherException ''connection refused'')
   \<and> fst (snd (connect_to_device env_refuse ADBDeviceManager ''dev-1'' w0)) = ADBDeviceManager
   \<and> (\<exists>c. fst (connect_to_device env_ok ADBDeviceManager ''dev-1'' w0) = Inr c
         \<and> is_connected c
         \<and> get_connection (fst (snd (connect_to_device env_ok ADBDeviceManager ''dev-1'' w0))) ''dev-1''
             = Inr c)"
proof -
  have l: "map_of (connections registry_live) ''dev-1'' = Some (live_connection ''dev-1'')
           \<and> is_connected (live_connection ''dev-1'')"
    by (simp add: registry_live_def is_connected_def live_connection_def)
  have n: "\<not> (\<exists>c. map_of (connections ADBDeviceManager) ''dev-1'' = Some c \<and> is_connected c)"
    by (simp add: ADBDeviceManager_def)
  have h: "adb_host env_refuse = ''127.0.0.1''" "adb_port env_refuse = 5037"
    by (simp_all add: env_refuse_def mk_env_def)
  have r: "fst (connect env_refuse (ADBConnection ''dev-1'' (adb_host env_refuse) (adb_port env_refuse)) w0)
             = Inl (OtherException ''connection refused'')"
    by (simp add: h connect_refused)
  note t1 = connect_to_device_outcomes [of registry_live "''dev-1''" env_refuse w0, THEN conjunct1]
  note t2 = connect_to_device_outcomes [of ADBDeviceManager "''dev-1''" env_refuse w0,
      THEN conjunct2, THEN mp, OF n]
  note t3 = connect_to_device_outcomes [of ADBDeviceManager "''dev-1''" env_ok w0,
      THEN conjunct2, THEN mp, OF n]
  have x: "connect_to_device env_refuse registry_live ''dev-1'' w0
       = (Inr (live_connection ''dev-1''), registry_live, w0)"
    using t1 [THEN spec, of "live_connection ''dev-1''"] l by simp
  have e: "fst (connect_to_device env_refuse ADBDeviceManager ''dev-1'' w0)
       = Inl (OtherException ''connection refused'')"
    using t2 [THEN conjunct1, THEN spec, of "OtherException ''connection refused''"] r by simp
  have "connect_to_device env_refuse ADBDeviceManager ''dev-1'' w0
       = (Inl (OtherException ''connection refused''),
          fst (snd (connect_to_device env_refuse ADBDeviceManager ''dev-1'' w0)),
          snd (snd (connect_to_device env_refuse ADBDeviceManager ''dev-1'' w0)))"
    using e by (simp add: prod_eq_iff)
  from t2 [THEN conjunct2, THEN conjunct1, rule_format, OF this]
  have d: "fst (snd (connect_to_device env_refuse ADBDeviceManager ''dev-1'' w0)) = ADBDeviceManager" .
  obtain c where ok: "fst (connect_to_device env_ok ADBDeviceManager ''dev-1'' w0) = Inr c"
    using connect_to_device_ok_val by blast
  then have "connect_to_device env_ok ADBDeviceManager ''dev-1'' w0
       = (Inr c, fst (snd (connect_to_device env_ok ADBDeviceManager ''dev-1'' w0)),
          snd (snd (connect_to_device env_ok ADBDeviceManager ''dev-1'' w0)))"
    by (simp add: prod_eq_iff)
  from t3 [THEN conjunct2, THEN conjunct2, rule_format, OF this]
  have c: "is_connected c
        \<and> get_connection (fst (snd (connect_to_device env_ok ADBDeviceManager ''dev-1'' w0))) ''dev-1'' = Inr c"
    by simp
  have ex: "\<exists>c. fst (connect_to_device env_ok ADBDeviceManager ''dev-1'' w0) = Inr c
         \<and> is_connected c
         \<and> get_connection (fst (snd (connect_to_device env_ok ADBDeviceManager ''dev-1'' w0))) ''dev-1''
             = Inr c"
    using ok c by blast
  show ?thesis
    by (intro conjI) (use l n x e d ex in \<open>simp_all only: simp_thms\<close>)
qed

lemma list_all_update:
  "list_all Q al \<Longrightarrow> Q (k, v) \<Longrightarrow> list_all Q (AList.update k v al)"
  by (induction al) auto

lemma list_all_delete: "list_all Q al \<Longrightarrow> list_all Q (AList.delete k al)"
  by (induction al) auto

lemma disconnect_from_device_absent:
  "map_of (connections dm) s = None \<Longrightarrow>
     disconnect_from_device E dm s w = (Inr (), dm\<lparr>devices := AList.delete s (devices dm)\<rparr>, w)"
  by (simp add: disconnect_from_device_def)

lemma disconnect_from_device_cases:
  "disconnect_from_device E dm s w = (r, dm', w') \<Longrightarrow>
     (\<exists>e. r = Inl e \<and> dm' = dm)
     \<or> (r = Inr ()
         \<and> dm' = dm\<lparr>connections := AList.delete s (connections dm),
                      devices := AList.delete s (devices dm)\<rparr>)"
  by (auto simp: disconnect_from_device_def AList.delete_notin_dom dest: map_of_eq_None_iff[THEN iffD1]
      split: option.splits prod.splits sum.splits)


lemma disconnect_from_device_keeps:
  assumes "disconnect_from_device E dm s w = (r, dm', w')"
  shows "(map_of (connections dm) k = None \<longrightarrow> map_of (connections dm') k = None)
         \<and> (devices_keyed dm \<longrightarrow> devices_keyed dm')"
  using disconnect_from_device_cases [OF assms]
  by (auto simp: delete_conv' devices_keyed_def list_all_delete)

lemma disconnect_from_device_gone:
  assumes "disconnect_from_device E dm s w = (Inr u, dm', w')"
  shows "map_of (connections dm') s = None \<and> map_of (devices dm') s = None"
  using disconnect_from_device_cases [OF assms]
  by (auto simp: delete_conv')

lemma health_checks_keys:
  "health_checks E cs w = (rs, cs1, w1) \<Longrightarrow> map fst cs1 = map fst cs \<and> length rs = length cs"
  by (induction cs arbitrary: rs cs1 w w1) (auto split: prod.splits)

lemma map_of_None_keys:
  "map fst xs = map fst ys \<Longrightarrow> map_of xs k = None \<longleftrightarrow> map_of ys k = None"
  by (metis map_of_eq_None_iff set_map)

lemma evict_keeps:
  "evict E rs dm w = (r, dm', w') \<Longrightarrow>
     (map_of (connections dm) k = None \<longrightarrow> map_of (connections dm') k = None)
     \<and> (devices_keyed dm \<longrightarrow> devices_keyed dm')"
proof (induction rs arbitrary: dm w)
  case Nil
  then show ?case by simp
next
  case (Cons a rs)
  obtain s h where a: "a = (s, h)" by (cases a)
  show ?case
  proof (cases "h = Inr False")
    case False
    with Cons a show ?thesis by simp
  next
    case True
    obtain r1 dm1 w1 where d: "disconnect_from_device E dm s w = (r1, dm1, w1)"
      by (cases "disconnect_from_device E dm s w")
    note k = disconnect_from_device_keeps [OF d, of k]
    show ?thesis
    proof (cases r1)
      case (Inl e)
      with Cons.prems a True d k show ?thesis by simp
    next
      case (Inr u)
      with Cons.prems a True d have "evict E rs dm1 w1 = (r, dm', w')" by simp
      from Cons.IH [OF this] k show ?thesis by auto
    qed
  qed
qed

lemma poll_devices_keeps:
  assumes "poll_devices E dm w = (r, dm', w')"
  shows "(map_of (connections dm) k = None \<longrightarrow> map_of (connections dm') k = None)
         \<and> (devices_keyed dm \<longrightarrow> devices_keyed dm')"
proof -
  obtain rs cs1 w1 where h: "health_checks E (connections dm) w = (rs, cs1, w1)"
    by (cases "health_checks E (connections dm) w")
  obtain r2 where e: "evict E (zip (map fst (connections dm)) rs) (dm\<lparr>connections := cs1\<rparr>) w1 = (r2, dm', w')"
    using assms h by (auto simp: poll_devices_def split: prod.splits)
  have "map_of (connections dm) k = None \<longrightarrow> map_of cs1 k = None"
    using health_checks_keys [OF h] map_of_None_keys [of cs1 "connections dm" k] by simp
  moreover have "devices_keyed dm \<longrightarrow> devices_keyed (dm\<lparr>connections := cs1\<rparr>)"
    by (simp add: devices_keyed_def)
  ultimately show ?thesis using evict_keeps [OF e, of k] by simp
qed

lemma connect_to_device_keeps:
  assumes "connect_to_device E dm s w = (r, dm', w')"
  shows "(k \<noteq> s \<longrightarrow> map_of (connections dm) k = None \<longrightarrow> map_of (connections dm') k = None)
         \<and> (devices_keyed dm \<longrightarrow> devices_keyed dm')"
proof (cases r)
  case (Inl e)
  have "dm' = dm"
  proof (cases "\<exists>c. map_of (connections dm) s = Some c \<and> is_connected c")
    case True
    then show ?thesis using assms by (auto simp: connect_to_device_existing)
  next
    case False
    then show ?thesis using assms Inl connect_new_fail by (simp add: connect_to_device_new)
  qed
  then show ?thesis by simp
next
  case (Inr c)
  show ?thesis
  proof (cases "\<exists>c. map_of (connections dm) s = Some c \<and> is_connected c")
    case True
    then show ?thesis using assms by (auto simp: connect_to_device_existing)
  next
    case False
    then have "connect_new E dm s w = (Inr c, dm', w')"
      using assms Inr by (simp add: connect_to_device_new)
    from connect_new_ok [OF this] show ?thesis
      by (auto simp: update_conv' devices_keyed_def list_all_update)
  qed
qed

lemma run_op_keeps:
  assumes "run_op E op (dm, w) = (dm', w')" "op \<noteq> Connect k"
  shows "(map_of (connections dm) k = None \<longrightarrow> map_of (connections dm') k = None)
         \<and> (devices_keyed dm \<longrightarrow> devices_keyed dm')"
proof (cases op)
  case (Connect s)
  obtain r where "connect_to_device E dm s w = (r, dm', w')"
    using assms Connect by (cases "connect_to_device E dm s w") simp
  from connect_to_device_keeps [OF this, of k] assms Connect show ?thesis by simp
next
  case (Disconnect s)
  obtain r where "disconnect_from_device E dm s w = (r, dm', w')"
    using assms Disconnect by (cases "disconnect_from_device E dm s w") simp
  from disconnect_from_device_keeps [OF this, of k] show ?thesis by simp
next
  case Poll
  obtain r where "poll_devices E dm w = (r, dm', w')"
    using assms Poll by (cases "poll_devices E dm w") simp
  from poll_devices_keeps [OF this, of k] show ?thesis by simp
qed

lemma run_op_keyed:
  assumes "run_op E op (dm, w) = (dm', w')" "devices_keyed dm"
  shows "devices_keyed dm'"
proof (cases "\<exists>k. op = Connect k")
  case True
  then obtain s where op: "op = Connect s" by blast
  obtain r where "connect_to_device E dm s w = (r, dm', w')"
    using assms op by (cases "connect_to_device E dm s w") simp
  from connect_to_device_keeps [OF this, of s] assms show ?thesis by simp
next
  case False
  then have "op \<noteq> Connect []" by blast
  from run_op_keeps [OF assms(1) this] assms(2) show ?thesis by simp
qed

lemma connect_to_device_fail_same:
  assumes "connect_to_device E dm s w = (Inl e, dm', w')"
  shows "dm' = dm"
proof (cases "\<exists>c. map_of (connections dm) s = Some c \<and> is_connected c")
  case True
  then show ?thesis using assms by (auto simp: connect_to_device_existing)
next
  case False
  then show ?thesis using assms connect_new_fail by (simp add: connect_to_device_new)
qed

lemma run_ops_unconnected:
  "\<not> connects E ops (dm, w) k \<Longrightarrow> map_of (connections dm) k = None \<Longrightarrow>
     map_of (connections (fst (run_ops E ops (dm, w)))) k = None"
proof (induction ops arbitrary: dm w)
  case Nil
  then show ?case by simp
next
  case (Cons op ops)
  obtain dm1 w1 where r: "run_op E op (dm, w) = (dm1, w1)" by (cases "run_op E op (dm, w)")
  have n: "\<not> connects E ops (dm1, w1) k" using Cons.prems(1) r by simp
  have "map_of (connections dm1) k = None"
  proof (cases "op = Connect k")
    case True
    obtain x dm2 w2 where c: "connect_to_device E dm k w = (x, dm2, w2)"
      by (cases "connect_to_device E dm k w")
    with Cons.prems(1) True obtain e where "x = Inl e" by (cases x) auto
    with c connect_to_device_fail_same have "dm2 = dm" by blast
    with c r True Cons.prems(2) show ?thesis by simp
  next
    case False
    from run_op_keeps [OF r False] Cons.prems(2) show ?thesis by simp
  qed
  from Cons.IH [OF n this] r show ?case by simp
qed

lemma run_ops_keyed:
  "devices_keyed dm \<Longrightarrow> devices_keyed (fst (run_ops E ops (dm, w)))"
proof (induction ops arbitrary: dm w)
  case Nil
  then show ?case by simp
next
  case (Cons op ops)
  obtain dm1 w1 where r: "run_op E op (dm, w) = (dm1, w1)" by (cases "run_op E op (dm, w)")
  from run_op_keyed [OF r Cons.prems] Cons.IH [of dm1 w1] r show ?case by simp
qed

lemma keyed_absent_serial:
  "devices_keyed dm \<Longrightarrow> map_of (devices dm) s = None \<Longrightarrow> s \<notin> dev_serial ` set (list_devices dm)"
  by (force simp: devices_keyed_def list_devices_def list_all_iff map_of_eq_None_iff)


lemma disconnect_from_device_returns:
  "map_of (connections dm) s = Some c \<Longrightarrow>
   device c = None \<or> env_unit E (AdbClose (serial c) # trace w) = None \<Longrightarrow>
     fst (disconnect_from_device E dm s w) = Inr ()"
  by (auto simp: disconnect_from_device_def disconnect_def io_defs split: option.splits)

text \<open>
  C8. \<open>get_connection\<close> fails with \<open>ADBDeviceNotFoundError\<close> for a serial that has no
  registered connection, and so for every serial that the run of the registry from its
  initial state never connected, whether or not a connect was attempted for it.
  \<open>disconnect_from_device\<close> returns without an error for a serial with no registered
  connection, and for a registered one whose transport closes; whenever it returns,
  \<open>get_connection\<close> fails for the serial, \<open>get_device\<close> finds nothing and no listed
  session carries the serial.
\<close>

theorem registry_lookup_and_disconnect:
  "(map_of (connections dm) s = None \<longrightarrow>
      get_connection dm s = Inl (ADBDeviceNotFoundError s)
      \<and> fst (disconnect_from_device E dm s w) = Inr ())
   \<and> (\<not> connects E ops (ADBDeviceManager, w) s \<longrightarrow>
      get_connection (fst (run_ops E ops (ADBDeviceManager, w))) s
        = Inl (ADBDeviceNotFoundError s))
   \<and> (\<forall>c. map_of (connections dm) s = Some c
          \<and> (device c = None \<or> env_unit E (AdbClose (serial c) # trace w) = None) \<longrightarrow>
        fst (disconnect_from_device E dm s w) = Inr ())
   \<and> (\<forall>u dm' w'. disconnect_from_device E dm s w = (Inr u, dm', w') \<longrightarrow>
        get_connection dm' s = Inl (ADBDeviceNotFoundError s)
        \<and> get_device dm' s = None
        \<and> (devices_keyed dm \<longrightarrow> s \<notin> dev_serial ` set (list_devices dm')))
   \<and> devices_keyed (fst (run_ops E ops (ADBDeviceManager, w)))"
proof -
  have a: "map_of (connections dm) s = None \<longrightarrow>
      get_connection dm s = Inl (ADBDeviceNotFoundError s)
      \<and> fst (disconnect_from_device E dm s w) = Inr ()"
    by (simp add: get_connection_def disconnect_from_device_absent)
  have e: "map_of (connections ADBDeviceManager) s = None" "devices_keyed ADBDeviceManager"
    by (simp_all add: ADBDeviceManager_def devices_keyed_def)
  have b: "\<not> connects E ops (ADBDeviceManager, w) s \<longrightarrow>
      get_connection (fst (run_ops E ops (ADBDeviceManager, w))) s
        = Inl (ADBDeviceNotFoundError s)"
    using run_ops_unconnected [of E ops ADBDeviceManager w s] e(1) by (simp add: get_connection_def)
  have c: "\<forall>c. map_of (connections dm) s = Some c
          \<and> (device c = None \<or> env_unit E (AdbClose (serial c) # trace w) = None) \<longrightarrow>
        fst (disconnect_from_device E dm s w) = Inr ()"
    using disconnect_from_device_returns by blast
  have d: "\<forall>u dm' w'. disconnect_from_device E dm s w = (Inr u, dm', w') \<longrightarrow>
        get_connection dm' s = Inl (ADBDeviceNotFoundError s)
        \<and> get_device dm' s = None
        \<and> (devices_keyed dm \<longrightarrow> s \<notin> dev_serial ` set (list_devices dm'))"
  proof (intro allI impI)
    fix u dm' w'
    assume h: "disconnect_from_device E dm s w = (Inr u, dm', w')"
    note g = disconnect_from_device_gone [OF h]
    note k = disconnect_from_device_keeps [OF h, of s]
    show "get_connection dm' s = Inl (ADBDeviceNotFoundError s)
        \<and> get_device dm' s = None
        \<and> (devices_keyed dm \<longrightarrow> s \<notin> dev_serial ` set (list_devices dm'))"
      using g k keyed_absent_serial [of dm' s] by (simp add: get_connection_def get_device_def)
  qed
  have f: "devices_keyed (fst (run_ops E ops (ADBDeviceManager, w)))"
    using run_ops_keyed [OF e(2)] .
  show ?thesis using a b c d f by (intro conjI)
qed

lemma connect_to_device_refused:
  "fst (connect_to_device env_refuse ADBDeviceManager ''dev-1'' w0)
     = Inl (OtherException ''connection refused'')"
proof -
  have "adb_host env_refuse = ''127.0.0.1''" "adb_port env_refuse = 5037"
    by (simp_all add: env_refuse_def mk_env_def)
  then show ?thesis
    by (simp add: connect_to_device_def connect_new_def ADBDeviceManager_def connect_refused)
qed

lemma unconnected_run:
  "\<not> connects env_refuse [Connect ''dev-1'', Poll, Disconnect ''dev-1'', Connect ''dev-1'']
        (ADBDeviceManager, w0) ''dev-2''"
  "\<not> connects env_refuse [Connect ''dev-1''] (ADBDeviceManager, w0) ''dev-1''"
  by (simp_all add: connect_to_device_refused)

lemma disconnect_live_val:
  "disconnect_from_device env_ok registry_live ''dev-1'' w0 =
     (Inr (), \<lparr>connections = [], devices = [], running = True\<rparr>,
      \<lparr>trace = [AdbClose ''dev-1''], clock = 0\<rparr>)"
  by (simp add: disconnect_from_device_def registry_live_def disconnect_def live_connection_def
      io_defs env_ok_def mk_env_def w0_def)

theorem registry_lookup_and_disconnect_witness:
  "map_of (connections ADBDeviceManager) ''dev-1'' = None
   \<and> get_connection ADBDeviceManager ''dev-1'' = Inl (ADBDeviceNotFoundError ''dev-1'')
   \<and> fst (disconnect_from_device env_refuse ADBDeviceManager ''dev-1'' w0) = Inr ()
   \<and> \<not> connects env_refuse [Connect ''dev-1''] (ADBDeviceManager, w0) ''dev-1''
   \<and> get_connection (fst (run_ops env_refuse [Connect ''dev-1''] (ADBDeviceManager, w0))) ''dev-1''
       = Inl (ADBDeviceNotFoundError ''dev-1'')
   \<and> map_of (connections registry_live) ''dev-1'' = Some (live_connection ''dev-1'')
   \<and> env_unit env_ok (AdbClose (serial (live_connection ''dev-1'')) # trace w0) = None
   \<and> fst (disconnect_from_device env_ok registry_live ''dev-1'' w0) = Inr ()
   \<and> devices_keyed registry_live
   \<and> get_connection (fst (snd (disconnect_from_device env_ok registry_live ''dev-1'' w0))) ''dev-1''
       = Inl (ADBDeviceNotFoundError ''dev-1'')
   \<and> ''dev-1'' \<notin> dev_serial `
         set (list_devices (fst (snd (disconnect_from_device env_ok registry_live ''dev-1'' w0))))"
proof -
  have a: "map_of (connections ADBDeviceManager) ''dev-1'' = None"
    by (simp add: ADBDeviceManager_def)
  note b = unconnected_run(2)
  have c: "map_of (connections registry_live) ''dev-1'' = Some (live_connection ''dev-1'')"
    "env_unit env_ok (AdbClose (serial (live_connection ''dev-1'')) # trace w0) = None"
    "devices_keyed registry_live"
    by (simp_all add: registry_live_def env_ok_def mk_env_def devices_keyed_def session_of_def)
  note t1 = registry_lookup_and_disconnect [of ADBDeviceManager "''dev-1''" env_refuse w0
      "[Connect ''dev-1'']"]
  note t2 = registry_lookup_and_disconnect [of registry_live "''dev-1''" env_ok w0 "[]"]
  have p1: "get_connection ADBDeviceManager ''dev-1'' = Inl (ADBDeviceNotFoundError ''dev-1'')
      \<and> fst (disconnect_from_device env_refuse ADBDeviceManager ''dev-1'' w0) = Inr ()"
    using t1 [THEN conjunct1] a by simp
  have p2: "get_connection (fst (run_ops env_refuse [Connect ''dev-1''] (ADBDeviceManager, w0))) ''dev-1''
       = Inl (ADBDeviceNotFoundError ''dev-1'')"
    using t1 [THEN conjunct2, THEN conjunct1, THEN mp, OF b] .
  have p3: "fst (disconnect_from_device env_ok registry_live ''dev-1'' w0) = Inr ()"
    using t2 [THEN conjunct2, THEN conjunct2, THEN conjunct1, THEN spec, of "live_connection ''dev-1''"]
      c(1,2) by simp
  from t2 [THEN conjunct2, THEN conjunct2, THEN conjunct2, THEN conjunct1, rule_format,
      OF disconnect_live_val]
  have p4: "get_connection (fst (snd (disconnect_from_device env_ok registry_live ''dev-1'' w0))) ''dev-1''
       = Inl (ADBDeviceNotFoundError ''dev-1'')
     \<and> ''dev-1'' \<notin> dev_serial `
         set (list_devices (fst (snd (disconnect_from_device env_ok registry_live ''dev-1'' w0))))"
    using c(3) by (simp add: disconnect_live_val)
  show ?thesis
    by (intro conjI) (use a b c p1 p2 p3 p4 in \<open>simp_all only: simp_thms\<close>)
qed

text \<open>
  C8 as stated, with no condition on the disconnect, fails for a connected serial whose
  transport raises when it is closed: \<open>disconnect_from_device\<close> raises that error before
  it reaches its deletions, and afterwards the serial is still listed and
  \<open>get_connection\<close> still returns its connection.
\<close>

theorem disconnect_close_raises:
  "get_connection registry_live ''dev-1'' = Inr (live_connection ''dev-1'')
   \<and> is_connected (live_connection ''dev-1'')
   \<and> fst (disconnect_from_device env_dead registry_live ''dev-1'' w0)
       = Inl (OtherException ''close failed'')
   \<and> get_connection (fst (snd (disconnect_from_device env_dead registry_live ''dev-1'' w0))) ''dev-1''
       = Inr (live_connection ''dev-1'')
   \<and> ''dev-1'' \<in> dev_serial `
         set (list_devices (fst (snd (disconnect_from_device env_dead registry_live ''dev-1'' w0))))"
  by (simp add: disconnect_from_device_def registry_live_def disconnect_def live_connection_def
      io_defs env_dead_def mk_env_def w0_def get_connection_def is_connected_def list_devices_def
      session_of_def)

lemma disconnect_from_device_closes:
  assumes "\<forall>s h. env_unit E (AdbClose s # h) = None"
  shows "\<exists>w'. disconnect_from_device E dm s w =
           (Inr (), dm\<lparr>connections := AList.delete s (connections dm),
                        devices := AList.delete s (devices dm)\<rparr>, w')"
proof -
  obtain r dm' w' where d: "disconnect_from_device E dm s w = (r, dm', w')"
    by (cases "disconnect_from_device E dm s w")
  have "r = Inr ()"
  proof (cases "map_of (connections dm) s")
    case None
    with d show ?thesis by (simp add: disconnect_from_device_absent)
  next
    case (Some c)
    from disconnect_from_device_returns [OF Some, of E w] assms d show ?thesis by simp
  qed
  with disconnect_from_device_cases [OF d] d show ?thesis by auto
qed

lemma evict_closes:
  assumes "\<forall>s h. env_unit E (AdbClose s # h) = None"
  shows "\<exists>w'. evict E zs dm w =
           (Inr (),
            dm\<lparr>connections := filter (\<lambda>(k, c). (k, Inr False) \<notin> set zs) (connections dm),
               devices := filter (\<lambda>(k, d). (k, Inr False) \<notin> set zs) (devices dm)\<rparr>, w')"
proof (induction zs arbitrary: dm w)
  case Nil
  then show ?case by simp
next
  case (Cons z zs)
  obtain s h where z: "z = (s, h)" by (cases z)
  show ?case
  proof (cases "h = Inr False")
    case False
    have "\<And>k. ((k, Inr False) = (s, h) \<or> (k, Inr False) \<in> set zs) = ((k, Inr False) \<in> set zs)"
      using False by auto
    with Cons [of dm w] z False show ?thesis by simp
  next
    case True
    obtain w1 where d: "disconnect_from_device E dm s w =
           (Inr (), dm\<lparr>connections := AList.delete s (connections dm),
                        devices := AList.delete s (devices dm)\<rparr>, w1)"
      using disconnect_from_device_closes [OF assms] by blast
    obtain w2 where e: "evict E zs (dm\<lparr>connections := AList.delete s (connections dm),
                        devices := AList.delete s (devices dm)\<rparr>) w1 =
           (Inr (),
            dm\<lparr>connections := filter (\<lambda>(k, c). (k, Inr False) \<notin> set zs) (AList.delete s (connections dm)),
               devices := filter (\<lambda>(k, d). (k, Inr False) \<notin> set zs) (AList.delete s (devices dm))\<rparr>, w2)"
      using Cons [of "dm\<lparr>connections := AList.delete s (connections dm),
                        devices := AList.delete s (devices dm)\<rparr>" w1] by auto
    have f: "filter (\<lambda>(k, c). (k, Inr False) \<notin> set zs) (AList.delete s xs)
           = filter (\<lambda>(k, c). (k, Inr False) \<notin> set ((s, Inr False) # zs)) xs" for xs :: "(string \<times> 'x) list"
      by (induction xs) (auto simp: AList.delete_eq)
    show ?thesis using z True d e by (simp add: f)
  qed
qed

lemma health_checks_results:
  "health_checks E cs w = (rs, cs1, w1) \<Longrightarrow> \<forall>r \<in> set rs. r = Inr True \<or> r = Inr False"
proof (induction cs arbitrary: rs cs1 w w1)
  case Nil
  then show ?case by simp
next
  case (Cons a cs)
  obtain s c where a: "a = (s, c)" by (cases a)
  obtain r c2 w2 where h: "health_check E c w = (r, c2, w2)" by (cases "health_check E c w")
  obtain rs' cs' w3 where t: "health_checks E cs w2 = (rs', cs', w3)" by (cases "health_checks E cs w2")
  have "r = Inr True \<or> r = Inr False"
    using health_check_total [of E c w] h by auto
  with Cons.IH [OF t] Cons.prems a h t show ?case by auto
qed

text \<open>
  As long as no close raises, a poll cycle removes exactly the serials whose health check
  returned \<open>False\<close>, from both maps, and leaves every other session as it was.
\<close>

lemma poll_devices_closes:
  assumes cl: "\<forall>s h. env_unit E (AdbClose s # h) = None"
    and hc: "health_checks E (connections dm) w = (rs, cs1, w1)"
  shows "fst (poll_devices E dm w) = Inr ()
     \<and> map fst (connections (fst (snd (poll_devices E dm w)))) =
         filter (\<lambda>k. (k, Inr False) \<notin> set (zip (map fst (connections dm)) rs)) (map fst (connections dm))
     \<and> devices (fst (snd (poll_devices E dm w))) =
         filter (\<lambda>(k, d). (k, Inr False) \<notin> set (zip (map fst (connections dm)) rs)) (devices dm)"
proof -
  let ?zs = "zip (map fst (connections dm)) rs"
  obtain w2 where e: "evict E ?zs (dm\<lparr>connections := cs1\<rparr>) w1 =
           (Inr (),
            dm\<lparr>connections := filter (\<lambda>(k, c). (k, Inr False) \<notin> set ?zs) cs1,
               devices := filter (\<lambda>(k, d). (k, Inr False) \<notin> set ?zs) (devices dm)\<rparr>, w2)"
    using evict_closes [OF cl, of ?zs "dm\<lparr>connections := cs1\<rparr>" w1] by auto
  have k: "map fst cs1 = map fst (connections dm)" using health_checks_keys [OF hc] by simp
  have "map fst (filter (\<lambda>(k, c). (k, Inr False) \<notin> set ?zs) cs1)
      = filter (\<lambda>k. (k, Inr False) \<notin> set ?zs) (map fst cs1)"
    by (induction cs1) auto
  with k e hc show ?thesis by (simp add: poll_devices_def)
qed

text \<open>
  C3 on a registry of two devices whose health checks both fail, where closing the
  transport of the first raises: the poll cycle swallows the error and ends, and both
  devices are still tracked and listed.
\<close>

theorem poll_keeps_unhealthy_devices:
  "fst (health_checks env_dead (connections registry_two) w0) = [Inr False, Inr False]
   \<and> fst (poll_devices env_dead registry_two w0) = Inr ()
   \<and> map fst (connections (fst (snd (poll_devices env_dead registry_two w0)))) = [''dev-1'', ''dev-2'']
   \<and> list_devices (fst (snd (poll_devices env_dead registry_two w0)))
       = [session_of ''dev-1'', session_of ''dev-2'']"
  by (simp add: poll_devices_def registry_two_def health_check_def health_check_body_def
      shell_def is_connected_def live_connection_def io_defs env_dead_def mk_env_def w0_def
      disconnect_from_device_def disconnect_def list_devices_def Let_def)

section \<open>Properties: the Server Deployer\<close>

lemma deploy_except_kind: "spec_kind (deploy_except e) = Some DeployFailed"
  by (cases e) simp_all



























section \<open>Properties: the Stream Fan-out Manager\<close>

lemma set_add_set [simp]: "set (set_add x xs) = insert x (set xs)"
  by (auto simp: set_add_def)

lemma set_add_distinct: "distinct xs \<Longrightarrow> distinct (set_add x xs)"
  by (auto simp: set_add_def)

lemma cm_disconnect_ok: "fst (cm_disconnect cm ws s) = Inr ()"
  by (auto simp: cm_disconnect_def Let_def split: option.splits)

lemma cm_disconnect_other:
  "s' \<noteq> s \<Longrightarrow> active_connections (snd (cm_disconnect cm ws s)) s' = active_connections cm s'"
  by (auto simp: cm_disconnect_def Let_def split: option.splits)

lemma cm_disconnect_absent:
  "active_connections cm s = None \<Longrightarrow> cm_disconnect cm ws s = (Inr (), cm)"
  by (simp add: cm_disconnect_def)

lemma cm_disconnect_same:
  "active_connections cm s = Some l \<Longrightarrow>
     active_connections (snd (cm_disconnect cm ws s)) s =
       (if removeAll ws l = [] then None else Some (removeAll ws l))"
  by (simp add: cm_disconnect_def set_discard_def Let_def)

lemma cm_disconnect_nonmember:
  assumes "active_connections cm s = Some l" "ws \<notin> set l" "l \<noteq> []"
  shows "cm_disconnect cm ws s = (Inr (), cm)"
proof -
  have "(active_connections cm)(s \<mapsto> l) = active_connections cm"
    using assms(1) by (simp add: map_upd_triv)
  then show ?thesis
    using assms by (simp add: cm_disconnect_def set_discard_def Let_def)
qed

lemma cm_disconnect_inv: "subscribers_ok cm \<Longrightarrow> subscribers_ok (snd (cm_disconnect cm ws s))"
  by (auto simp: subscribers_ok_def cm_disconnect_def set_discard_def Let_def distinct_removeAll
      split: option.splits if_splits)

lemma disconnect_all_ok: "fst (disconnect_all cm d s) = Inr ()"
proof (induction d arbitrary: cm)
  case Nil
  then show ?case by simp
next
  case (Cons ws d)
  obtain cm1 where c: "cm_disconnect cm ws s = (Inr (), cm1)"
    using cm_disconnect_ok [of cm ws s] by (cases "cm_disconnect cm ws s") auto
  with Cons show ?case by simp
qed

lemma disconnect_all_inv:
  "subscribers_ok cm \<Longrightarrow> subscribers_ok (snd (disconnect_all cm d s))"
proof (induction d arbitrary: cm)
  case Nil
  then show ?case by simp
next
  case (Cons ws d)
  obtain cm1 where c: "cm_disconnect cm ws s = (Inr (), cm1)"
    using cm_disconnect_ok [of cm ws s] by (cases "cm_disconnect cm ws s") auto
  then have "subscribers_ok cm1" using cm_disconnect_inv [OF Cons.prems, of ws s] by simp
  with Cons.IH c show ?case by simp
qed

lemma disconnect_all_other:
  "s' \<noteq> s \<Longrightarrow> active_connections (snd (disconnect_all cm d s)) s' = active_connections cm s'"
proof (induction d arbitrary: cm)
  case Nil
  then show ?case by simp
next
  case (Cons ws d)
  obtain cm1 where c: "cm_disconnect cm ws s = (Inr (), cm1)"
    using cm_disconnect_ok [of cm ws s] by (cases "cm_disconnect cm ws s") auto
  then have "active_connections cm1 s' = active_connections cm s'"
    using cm_disconnect_other [OF Cons.prems, of cm ws] by simp
  with Cons c show ?case by simp
qed


lemma set_add_nonempty: "set_add x xs \<noteq> []"
  by (auto simp: set_add_def)

lemma cm_connect_result:
  "cm_connect E cm ws s w =
     (case env_unit E (WsAccept ws # trace w) of
        Some e \<Rightarrow> (Inl e, cm, w\<lparr>trace := WsAccept ws # trace w\<rparr>)
      | None \<Rightarrow>
          (Inr (),
           cm\<lparr>active_connections :=
                 (active_connections cm)
                   (s \<mapsto> set_add ws (case active_connections cm s of None \<Rightarrow> [] | Some l \<Rightarrow> l))\<rparr>,
           w\<lparr>trace := WsAccept ws # trace w\<rparr>))"
  by (auto simp: cm_connect_def io_defs Let_def split: option.splits)

lemma cm_connect_inv:
  "subscribers_ok cm \<Longrightarrow> subscribers_ok (fst (snd (cm_connect E cm ws s w)))"
  by (auto simp: cm_connect_result subscribers_ok_def set_add_nonempty set_add_distinct
      split: option.splits)

declare send_pass.simps [simp del]

lemma run_task_inv:
  "subscribers_ok cm \<Longrightarrow> subscribers_ok (fst (run_task E t cm w))"
proof (cases t)
  case (Attach ws s)
  assume "subscribers_ok cm"
  from cm_connect_inv [OF this, of E ws s w] Attach show ?thesis
    by (auto split: prod.splits)
next
  case (Detach ws s)
  assume "subscribers_ok cm"
  from cm_disconnect_inv [OF this, of ws s] Detach show ?thesis
    by (auto split: prod.splits)
qed

lemma run_tasks_inv:
  "subscribers_ok cm \<Longrightarrow> subscribers_ok (fst (snd (run_tasks E s ts live cm w)))"
proof (induction ts arbitrary: live cm w)
  case Nil
  then show ?case by simp
next
  case (Cons t ts)
  obtain cm1 w1 where r: "run_task E t cm w = (cm1, w1)" by (cases "run_task E t cm w")
  have "subscribers_ok cm1" using run_task_inv [OF Cons.prems, of E t w] r by simp
  from Cons.IH [OF this] r show ?case by simp
qed

lemma send_pass_inv:
  "subscribers_ok cm \<Longrightarrow>
     subscribers_ok (fst (snd (send_pass E mk s used pos live disconnected cm w)))"
proof (induction E mk s used pos live disconnected cm w rule: send_pass.induct)
  case (1 E mk s used pos live disconnected cm w)
  let ?ws = "iterated live cm s ! pos"
  show ?case
  proof (cases "length (iterated live cm s) \<noteq> used \<or> used \<le> pos")
    case True
    then show ?thesis using "1.prems" by (subst send_pass.simps) auto
  next
    case False
    then have c: "\<not> length (iterated live cm s) \<noteq> used" "\<not> used \<le> pos" by simp_all
    obtain is_open w1 where a: "ask_bool E (WsState ?ws) w = (is_open, w1)"
      by (cases "ask_bool E (WsState ?ws) w")
    show ?thesis
    proof (cases is_open)
      case False
      from "1.IH"(2) [OF c a [symmetric] False "1.prems"] c a False show ?thesis
        by (subst send_pass.simps) simp
    next
      case True
      obtain r w2 where b: "ask_unit E (mk ?ws) w1 = (r, w2)"
        by (cases "ask_unit E (mk ?ws) w1")
      obtain live1 cm1 w3 where t: "run_tasks E s (env_tasks E (trace w2)) live cm w2 = (live1, cm1, w3)"
        by (cases "run_tasks E s (env_tasks E (trace w2)) live cm w2")
      have ok: "subscribers_ok cm1"
        using run_tasks_inv [OF "1.prems", of E s "env_tasks E (trace w2)" live w2] t by simp
      from "1.IH"(1) [OF c a [symmetric] True b [symmetric] t [symmetric] refl ok] c a True b t
      show ?thesis
        by (subst send_pass.simps) simp
    qed
  qed
qed

lemma broadcast_inv:
  "subscribers_ok cm \<Longrightarrow> subscribers_ok (fst (snd (broadcast E mk cm s w)))"
proof (cases "active_connections cm s")
  case None
  then show "subscribers_ok cm \<Longrightarrow> ?thesis" by (simp add: broadcast_def)
next
  case (Some l)
  assume ok: "subscribers_ok cm"
  obtain r cm1 w1 where p: "send_pass E mk s (length l) 0 True [] cm w = (r, cm1, w1)"
    by (cases "send_pass E mk s (length l) 0 True [] cm w")
  have ok1: "subscribers_ok cm1"
    using send_pass_inv [OF ok, of E mk s "length l" 0 True "[]" w] p by simp
  show ?thesis
  proof (cases r)
    case (Inl e)
    with Some p ok1 show ?thesis by (simp add: broadcast_def)
  next
    case (Inr d)
    have "fst (snd (broadcast E mk cm s w)) = snd (disconnect_all cm1 d s)"
      using Some p Inr by (simp add: broadcast_def split: prod.splits)
    then show ?thesis using disconnect_all_inv [OF ok1] by simp
  qed
qed

text \<open>
  C10. The subscriber map of a new manager has the invariant (every key has a non-empty
  set without duplicates), and attach, detach and both broadcasts, with their pruning,
  preserve it. Detach never raises, and it changes nothing when the serial has no set or
  the transport is not in the serial's set.
\<close>

theorem subscriber_map_invariant:
  "subscribers_ok ConnectionManager
   \<and> (subscribers_ok cm \<longrightarrow>
        subscribers_ok (fst (snd (cm_connect E cm ws s w)))
        \<and> subscribers_ok (snd (cm_disconnect cm ws s))
        \<and> subscribers_ok (fst (snd (send_message E cm payload s w)))
        \<and> subscribers_ok (fst (snd (send_binary E cm payload s w))))
   \<and> fst (cm_disconnect cm ws s) = Inr ()
   \<and> (active_connections cm s = None \<longrightarrow> cm_disconnect cm ws s = (Inr (), cm))
   \<and> (\<forall>l. subscribers_ok cm \<and> active_connections cm s = Some l \<and> ws \<notin> set l \<longrightarrow>
         cm_disconnect cm ws s = (Inr (), cm))"
proof -
  have a: "subscribers_ok ConnectionManager"
    by (simp add: subscribers_ok_def ConnectionManager_def)
  have b: "subscribers_ok cm \<longrightarrow>
        subscribers_ok (fst (snd (cm_connect E cm ws s w)))
        \<and> subscribers_ok (snd (cm_disconnect cm ws s))
        \<and> subscribers_ok (fst (snd (send_message E cm payload s w)))
        \<and> subscribers_ok (fst (snd (send_binary E cm payload s w)))"
    by (simp add: cm_connect_inv cm_disconnect_inv send_message_def send_binary_def broadcast_inv)
  have c: "\<forall>l. subscribers_ok cm \<and> active_connections cm s = Some l \<and> ws \<notin> set l \<longrightarrow>
         cm_disconnect cm ws s = (Inr (), cm)"
    using cm_disconnect_nonmember by (auto simp: subscribers_ok_def)
  show ?thesis
    using a b c cm_disconnect_ok [of cm ws s] cm_disconnect_absent [of cm s ws]
    by (intro conjI) simp_all
qed

lemma cm_three_ok: "subscribers_ok cm_three"
  by (simp add: subscribers_ok_def cm_three_def)

theorem subscriber_map_invariant_witness:
  "subscribers_ok cm_three
   \<and> subscribers_ok (fst (snd (cm_connect env_ws cm_three 4 ''dev-1'' w0)))
   \<and> subscribers_ok (snd (cm_disconnect cm_three 1 ''dev-1''))
   \<and> subscribers_ok (fst (snd (send_message env_ws cm_three ''m'' ''dev-1'' w0)))
   \<and> subscribers_ok (fst (snd (send_binary env_ws cm_three ''m'' ''dev-1'' w0)))
   \<and> active_connections cm_three ''dev-2'' = None
   \<and> cm_disconnect cm_three 1 ''dev-2'' = (Inr (), cm_three)
   \<and> active_connections cm_three ''dev-1'' = Some [1, 2, 3]
   \<and> 4 \<notin> set [1, 2, 3 :: nat]
   \<and> cm_disconnect cm_three 4 ''dev-1'' = (Inr (), cm_three)"
proof -
  have a: "active_connections cm_three ''dev-2'' = None"
    "active_connections cm_three ''dev-1'' = Some [1, 2, 3]" "4 \<notin> set [1, 2, 3 :: nat]"
    by (simp_all add: cm_three_def)
  note t1 = subscriber_map_invariant [of cm_three env_ws 4 "''dev-1''" w0 "''m''"]
  note t2 = subscriber_map_invariant [of cm_three env_ws 1 "''dev-1''" w0 "''m''"]
  note t3 = subscriber_map_invariant [of cm_three env_ws 1 "''dev-2''" w0 "''m''"]
  have p1: "subscribers_ok (fst (snd (cm_connect env_ws cm_three 4 ''dev-1'' w0)))
       \<and> subscribers_ok (fst (snd (send_message env_ws cm_three ''m'' ''dev-1'' w0)))
       \<and> subscribers_ok (fst (snd (send_binary env_ws cm_three ''m'' ''dev-1'' w0)))"
    using t1 [THEN conjunct2, THEN conjunct1] cm_three_ok by simp
  have p2: "subscribers_ok (snd (cm_disconnect cm_three 1 ''dev-1''))"
    using t2 [THEN conjunct2, THEN conjunct1] cm_three_ok by simp
  have p3: "cm_disconnect cm_three 1 ''dev-2'' = (Inr (), cm_three)"
    using t3 [THEN conjunct2, THEN conjunct2, THEN conjunct2, THEN conjunct1] a(1) by simp
  have p4: "cm_disconnect cm_three 4 ''dev-1'' = (Inr (), cm_three)"
    using t1 [THEN conjunct2, THEN conjunct2, THEN conjunct2, THEN conjunct2, THEN spec, of "[1, 2, 3]"]
      cm_three_ok a(2,3) by simp
  show ?thesis
    by (intro conjI) (use cm_three_ok a p1 p2 p3 p4 in \<open>simp_all only: simp_thms\<close>)
qed

lemma issued_cons:
  assumes "suffix (r # t) t'"
  shows "issued t t' h \<longleftrightarrow> h = r # t \<or> issued (r # t) t' h"
proof
  assume i: "issued t t' h"
  then have s: "suffix h t'" and l: "length t < length h" by (simp_all add: issued_def)
  show "h = r # t \<or> issued (r # t) t' h"
  proof (cases "length (r # t) < length h")
    case True
    with s show ?thesis by (simp add: issued_def)
  next
    case False
    with l have e: "length h = length (r # t)" by simp
    from s assms have "suffix h (r # t) \<or> suffix (r # t) h"
      by (rule suffix_same_cases)
    with e have "h = r # t"
      by (metis suffix_length_le suffix_order.antisym_conv suffix_def length_append add_cancel_left_left length_0_conv append_Nil)
    then show ?thesis by simp
  qed
next
  assume "h = r # t \<or> issued (r # t) t' h"
  then show "issued t t' h"
    using assms by (auto simp: issued_def)
qed

lemma pass_over_Cons:
  "pass_over E mk (ws # rest) disc w =
     (if env_bool E (WsState ws # trace w) then
        (if env_unit E (mk ws # WsState ws # trace w) = None
         then pass_over E mk rest disc (w\<lparr>trace := mk ws # WsState ws # trace w\<rparr>)
         else pass_over E mk rest (set_add ws disc) (w\<lparr>trace := mk ws # WsState ws # trace w\<rparr>))
      else pass_over E mk rest (set_add ws disc) (w\<lparr>trace := WsState ws # trace w\<rparr>))"
  by (auto simp: io_defs split: option.splits)

lemma suffix_Cons2D: "suffix (a # b # t) t' \<Longrightarrow> suffix t t'"
  by (meson suffix_ConsD)

lemma pass_over_suffix:
  "pass_over E mk l disc w = (disc', w') \<Longrightarrow> suffix (trace w) (trace w') \<and> clock w' = clock w"
proof (induction l arbitrary: disc w)
  case Nil
  then show ?case by simp
next
  case (Cons ws rest)
  from Cons.prems show ?case
    unfolding pass_over_Cons
    by (auto split: if_splits dest!: Cons.IH dest: suffix_ConsD suffix_Cons2D)
qed

lemma pass_over_disc:
  "pass_over E mk l disc w = (disc', w') \<Longrightarrow>
     set disc \<subseteq> set disc' \<and> set disc' \<subseteq> set disc \<union> set l \<and> (distinct disc \<longrightarrow> distinct disc')"
proof (induction l arbitrary: disc w)
  case Nil
  then show ?case by simp
next
  case (Cons ws rest)
  from Cons.prems show ?case
    unfolding pass_over_Cons
    by (auto split: if_splits dest!: Cons.IH simp: set_add_distinct)
qed


lemma issued_mono: "issued t1 t' h \<Longrightarrow> length t \<le> length t1 \<Longrightarrow> issued t t' h"
  by (simp add: issued_def)

lemma issued_same: "\<not> issued t t h"
  by (auto simp: issued_def dest: suffix_length_le)

lemma issued_mono1: "issued (r # t) t' h \<Longrightarrow> issued t t' h"
  by (simp add: issued_def)

lemma issued_mono2: "issued (a # b # t) t' h \<Longrightarrow> issued t t' h"
  by (simp add: issued_def)

lemma issued_first: "suffix (r # t) t' \<Longrightarrow> issued t t' (r # t)"
  by (simp add: issued_def)

lemma issued_cons2:
  assumes "suffix (a # b # t) t'"
  shows "issued t t' h \<longleftrightarrow> h = b # t \<or> h = a # b # t \<or> issued (a # b # t) t' h"
proof -
  have "suffix (b # t) t'" using assms by (rule suffix_ConsD)
  from issued_cons [OF this] issued_cons [OF assms] show ?thesis by blast
qed

text \<open>The three ways one round of the loop can go, with what the rest of the loop starts from.\<close>

lemma pass_over_round:
  assumes "pass_over E mk (ws # rest) disc w = (disc', w')"
  obtains
    (closed) "\<not> env_bool E (WsState ws # trace w)"
      "pass_over E mk rest (set_add ws disc) (w\<lparr>trace := WsState ws # trace w\<rparr>) = (disc', w')"
      "suffix (WsState ws # trace w) (trace w')" "ws \<in> set disc'"
  | (written) "env_bool E (WsState ws # trace w)"
      "env_unit E (mk ws # WsState ws # trace w) = None"
      "pass_over E mk rest disc (w\<lparr>trace := mk ws # WsState ws # trace w\<rparr>) = (disc', w')"
      "suffix (mk ws # WsState ws # trace w) (trace w')"
  | (failed) "env_bool E (WsState ws # trace w)"
      "env_unit E (mk ws # WsState ws # trace w) \<noteq> None"
      "pass_over E mk rest (set_add ws disc) (w\<lparr>trace := mk ws # WsState ws # trace w\<rparr>) = (disc', w')"
      "suffix (mk ws # WsState ws # trace w) (trace w')" "ws \<in> set disc'"
proof (cases "env_bool E (WsState ws # trace w)")
  case False
  with assms have r: "pass_over E mk rest (set_add ws disc) (w\<lparr>trace := WsState ws # trace w\<rparr>) = (disc', w')"
    by (simp add: pass_over_Cons del: pass_over.simps)
  from pass_over_suffix [OF r] pass_over_disc [OF r] False r closed show ?thesis by auto
next
  case True
  show ?thesis
  proof (cases "env_unit E (mk ws # WsState ws # trace w) = None")
    case n: True
    with True assms have r: "pass_over E mk rest disc (w\<lparr>trace := mk ws # WsState ws # trace w\<rparr>) = (disc', w')"
      by (simp add: pass_over_Cons del: pass_over.simps)
    from pass_over_suffix [OF r] True n r written show ?thesis by auto
  next
    case n: False
    with True assms have r: "pass_over E mk rest (set_add ws disc) (w\<lparr>trace := mk ws # WsState ws # trace w\<rparr>) = (disc', w')"
      by (simp add: pass_over_Cons del: pass_over.simps)
    from pass_over_suffix [OF r] pass_over_disc [OF r] True n r failed show ?thesis by auto
  qed
qed

lemma pass_over_visits:
  "pass_over E mk l disc w = (disc', w') \<Longrightarrow> ws \<in> set l \<Longrightarrow>
     \<exists>h. issued (trace w) (trace w') (WsState ws # h)"
proof (induction l arbitrary: disc w)
  case Nil
  then show ?case by simp
next
  case (Cons a rest)
  from Cons.prems(1) show ?case
  proof (cases rule: pass_over_round)
    case closed
    show ?thesis
    proof (cases "ws = a")
      case True
      then show ?thesis using issued_first [OF closed(3)] by blast
    next
      case False
      with Cons.prems have "ws \<in> set rest" by simp
      from Cons.IH [OF closed(2) this] obtain h where
        "issued (WsState a # trace w) (trace w') (WsState ws # h)" by auto
      then have "issued (trace w) (trace w') (WsState ws # h)" by (rule issued_mono) simp
      then show ?thesis by blast
    qed
  next
    case written
    have s: "suffix (WsState a # trace w) (trace w')" using written(4) by (rule suffix_ConsD)
    show ?thesis
    proof (cases "ws = a")
      case True
      then show ?thesis using issued_first [OF s] by blast
    next
      case False
      with Cons.prems have "ws \<in> set rest" by simp
      from Cons.IH [OF written(3) this] obtain h where
        "issued (mk a # WsState a # trace w) (trace w') (WsState ws # h)" by auto
      then have "issued (trace w) (trace w') (WsState ws # h)" by (rule issued_mono) simp
      then show ?thesis by blast
    qed
  next
    case failed
    have s: "suffix (WsState a # trace w) (trace w')" using failed(4) by (rule suffix_ConsD)
    show ?thesis
    proof (cases "ws = a")
      case True
      then show ?thesis using issued_first [OF s] by blast
    next
      case False
      with Cons.prems have "ws \<in> set rest" by simp
      from Cons.IH [OF failed(3) this] obtain h where
        "issued (mk a # WsState a # trace w) (trace w') (WsState ws # h)" by auto
      then have "issued (trace w) (trace w') (WsState ws # h)" by (rule issued_mono) simp
      then show ?thesis by blast
    qed
  qed
qed


lemma pass_over_state:
  assumes mk: "\<forall>a b. mk a \<noteq> WsState b"
  shows "pass_over E mk l disc w = (disc', w') \<Longrightarrow>
     issued (trace w) (trace w') (WsState ws # h) \<Longrightarrow>
       ws \<in> set l
       \<and> (env_bool E (WsState ws # h) \<longrightarrow> issued (trace w) (trace w') (mk ws # WsState ws # h))
       \<and> (\<not> env_bool E (WsState ws # h) \<longrightarrow> ws \<in> set disc')"
proof (induction l arbitrary: disc w)
  case Nil
  then show ?case by (simp add: issued_same)
next
  case (Cons a rest)
  have mk': "WsState x \<noteq> mk y" for x y
    using mk [rule_format, of y x] by (rule not_sym)
  from Cons.prems(1) show ?case
  proof (cases rule: pass_over_round)
    case closed
    from Cons.prems(2) have "WsState ws # h = WsState a # trace w
        \<or> issued (WsState a # trace w) (trace w') (WsState ws # h)"
      unfolding issued_cons [OF closed(3)] .
    then show ?thesis
    proof
      assume "WsState ws # h = WsState a # trace w"
      with closed show ?thesis by simp
    next
      assume 2: "issued (WsState a # trace w) (trace w') (WsState ws # h)"
      from Cons.IH [OF closed(2)] 2
      have "ws \<in> set rest
       \<and> (env_bool E (WsState ws # h) \<longrightarrow> issued (WsState a # trace w) (trace w') (mk ws # WsState ws # h))
       \<and> (\<not> env_bool E (WsState ws # h) \<longrightarrow> ws \<in> set disc')" by simp
      then show ?thesis using issued_mono1 by auto
    qed
  next
    case written
    have f: "issued (trace w) (trace w') (mk a # WsState a # trace w)"
      using written(4) by (simp add: issued_def)
    from Cons.prems(2) have "WsState ws # h = WsState a # trace w
        \<or> WsState ws # h = mk a # WsState a # trace w
        \<or> issued (mk a # WsState a # trace w) (trace w') (WsState ws # h)"
      unfolding issued_cons2 [OF written(4)] .
    with mk mk' have "WsState ws # h = WsState a # trace w
        \<or> issued (mk a # WsState a # trace w) (trace w') (WsState ws # h)"
      by auto
    then show ?thesis
    proof
      assume "WsState ws # h = WsState a # trace w"
      with written f show ?thesis by simp
    next
      assume 2: "issued (mk a # WsState a # trace w) (trace w') (WsState ws # h)"
      from Cons.IH [OF written(3)] 2
      have "ws \<in> set rest
       \<and> (env_bool E (WsState ws # h) \<longrightarrow> issued (mk a # WsState a # trace w) (trace w') (mk ws # WsState ws # h))
       \<and> (\<not> env_bool E (WsState ws # h) \<longrightarrow> ws \<in> set disc')" by simp
      then show ?thesis using issued_mono2 by auto
    qed
  next
    case failed
    have f: "issued (trace w) (trace w') (mk a # WsState a # trace w)"
      using failed(4) by (simp add: issued_def)
    from Cons.prems(2) have "WsState ws # h = WsState a # trace w
        \<or> WsState ws # h = mk a # WsState a # trace w
        \<or> issued (mk a # WsState a # trace w) (trace w') (WsState ws # h)"
      unfolding issued_cons2 [OF failed(4)] .
    with mk mk' have "WsState ws # h = WsState a # trace w
        \<or> issued (mk a # WsState a # trace w) (trace w') (WsState ws # h)"
      by auto
    then show ?thesis
    proof
      assume "WsState ws # h = WsState a # trace w"
      with failed f show ?thesis by simp
    next
      assume 2: "issued (mk a # WsState a # trace w) (trace w') (WsState ws # h)"
      from Cons.IH [OF failed(3)] 2
      have "ws \<in> set rest
       \<and> (env_bool E (WsState ws # h) \<longrightarrow> issued (mk a # WsState a # trace w) (trace w') (mk ws # WsState ws # h))
       \<and> (\<not> env_bool E (WsState ws # h) \<longrightarrow> ws \<in> set disc')" by simp
      then show ?thesis using issued_mono2 by auto
    qed
  qed
qed


lemma pass_over_write:
  assumes mk: "\<forall>a b. mk a \<noteq> WsState b" and inj: "inj mk"
  shows "pass_over E mk l disc w = (disc', w') \<Longrightarrow>
     issued (trace w) (trace w') (mk ws # h) \<Longrightarrow>
       ws \<in> set l \<and> (env_unit E (mk ws # h) \<noteq> None \<longrightarrow> ws \<in> set disc')"
proof (induction l arbitrary: disc w)
  case Nil
  then show ?case by (simp add: issued_same)
next
  case (Cons a rest)
  have mk': "WsState x \<noteq> mk y" for x y
    using mk [rule_format, of y x] by (rule not_sym)
  from Cons.prems(1) show ?case
  proof (cases rule: pass_over_round)
    case closed
    from Cons.prems(2) have "mk ws # h = WsState a # trace w
        \<or> issued (WsState a # trace w) (trace w') (mk ws # h)"
      unfolding issued_cons [OF closed(3)] .
    with mk mk' have "issued (WsState a # trace w) (trace w') (mk ws # h)" by auto
    with Cons.IH [OF closed(2)] show ?thesis by simp
  next
    case written
    from Cons.prems(2) have "mk ws # h = WsState a # trace w
        \<or> mk ws # h = mk a # WsState a # trace w
        \<or> issued (mk a # WsState a # trace w) (trace w') (mk ws # h)"
      unfolding issued_cons2 [OF written(4)] .
    with mk mk' have "mk ws # h = mk a # WsState a # trace w
        \<or> issued (mk a # WsState a # trace w) (trace w') (mk ws # h)" by auto
    then show ?thesis
    proof
      assume "mk ws # h = mk a # WsState a # trace w"
      then have "ws = a" "h = WsState a # trace w" using inj by (auto dest: injD)
      with written show ?thesis by simp
    next
      assume "issued (mk a # WsState a # trace w) (trace w') (mk ws # h)"
      with Cons.IH [OF written(3)] show ?thesis by simp
    qed
  next
    case failed
    from Cons.prems(2) have "mk ws # h = WsState a # trace w
        \<or> mk ws # h = mk a # WsState a # trace w
        \<or> issued (mk a # WsState a # trace w) (trace w') (mk ws # h)"
      unfolding issued_cons2 [OF failed(4)] .
    with mk mk' have "mk ws # h = mk a # WsState a # trace w
        \<or> issued (mk a # WsState a # trace w) (trace w') (mk ws # h)" by auto
    then show ?thesis
    proof
      assume "mk ws # h = mk a # WsState a # trace w"
      then have "ws = a" using inj by (auto dest: injD)
      with failed show ?thesis by simp
    next
      assume "issued (mk a # WsState a # trace w) (trace w') (mk ws # h)"
      with Cons.IH [OF failed(3)] show ?thesis by simp
    qed
  qed
qed

lemma pass_over_collected:
  "pass_over E mk l disc w = (disc', w') \<Longrightarrow> ws \<in> set disc' \<Longrightarrow> ws \<notin> set disc \<Longrightarrow>
     (\<exists>h. issued (trace w) (trace w') (WsState ws # h) \<and> \<not> env_bool E (WsState ws # h))
     \<or> (\<exists>h. issued (trace w) (trace w') (mk ws # h) \<and> env_unit E (mk ws # h) \<noteq> None)"
proof (induction l arbitrary: disc w)
  case Nil
  then show ?case by simp
next
  case (Cons a rest)
  from Cons.prems(1) show ?case
  proof (cases rule: pass_over_round)
    case closed
    show ?thesis
    proof (cases "ws = a")
      case True
      with closed issued_first [OF closed(3)] show ?thesis by blast
    next
      case False
      with Cons.prems have "ws \<notin> set (set_add a disc)" by simp
      from Cons.IH [OF closed(2) Cons.prems(2) this]
      have "(\<exists>h. issued (WsState a # trace w) (trace w') (WsState ws # h) \<and> \<not> env_bool E (WsState ws # h))
     \<or> (\<exists>h. issued (WsState a # trace w) (trace w') (mk ws # h) \<and> env_unit E (mk ws # h) \<noteq> None)"
        by simp
      then show ?thesis using issued_mono1 by blast
    qed
  next
    case written
    from Cons.IH [OF written(3) Cons.prems(2) Cons.prems(3)]
    have "(\<exists>h. issued (mk a # WsState a # trace w) (trace w') (WsState ws # h) \<and> \<not> env_bool E (WsState ws # h))
     \<or> (\<exists>h. issued (mk a # WsState a # trace w) (trace w') (mk ws # h) \<and> env_unit E (mk ws # h) \<noteq> None)"
      by simp
    then show ?thesis using issued_mono2 by blast
  next
    case failed
    have f: "issued (trace w) (trace w') (mk a # WsState a # trace w)"
      using failed(4) by (simp add: issued_def)
    show ?thesis
    proof (cases "ws = a")
      case True
      with failed f show ?thesis by blast
    next
      case False
      with Cons.prems have "ws \<notin> set (set_add a disc)" by simp
      from Cons.IH [OF failed(3) Cons.prems(2) this]
      have "(\<exists>h. issued (mk a # WsState a # trace w) (trace w') (WsState ws # h) \<and> \<not> env_bool E (WsState ws # h))
     \<or> (\<exists>h. issued (mk a # WsState a # trace w) (trace w') (mk ws # h) \<and> env_unit E (mk ws # h) \<noteq> None)"
        by simp
      then show ?thesis using issued_mono2 by blast
    qed
  qed
qed

lemma disconnect_all_same:
  "active_connections cm s = Some l \<Longrightarrow> l \<noteq> [] \<Longrightarrow>
     active_connections (snd (disconnect_all cm d s)) s =
       (if filter (\<lambda>y. y \<notin> set d) l = [] then None else Some (filter (\<lambda>y. y \<notin> set d) l))"
proof (induction d arbitrary: cm l)
  case Nil
  then show ?case by simp
next
  case (Cons x d)
  obtain cm1 where c: "cm_disconnect cm x s = (Inr (), cm1)"
    using cm_disconnect_ok [of cm x s] by (cases "cm_disconnect cm x s") auto
  have m1: "active_connections cm1 s = (if removeAll x l = [] then None else Some (removeAll x l))"
    using cm_disconnect_same [OF Cons.prems(1), of x] c by simp
  have f: "filter (\<lambda>y. y \<notin> set (x # d)) l = filter (\<lambda>y. y \<notin> set d) (removeAll x l)"
    by (induction l) auto
  show ?case
  proof (cases "removeAll x l = []")
    case True
    then have n: "active_connections cm1 s = None" using m1 by simp
    have "active_connections (snd (disconnect_all cm1 d s)) s = None"
      using n
    proof (induction d arbitrary: cm1)
      case Nil
      then show ?case by simp
    next
      case (Cons y d)
      then show ?case by (simp add: cm_disconnect_absent)
    qed
    with True c f show ?thesis by simp
  next
    case False
    then have "active_connections cm1 s = Some (removeAll x l)" using m1 by simp
    from Cons.IH [OF this False] c f show ?thesis by simp
  qed
qed

lemma filter_cong_set: "(\<And>x. x \<in> set l \<Longrightarrow> P x = Q x) \<Longrightarrow> filter P l = filter Q l"
  by (rule filter_cong) auto

lemma send_pass_undisturbed:
  assumes q: "undisturbed E" and l: "active_connections cm s = Some l"
  shows "send_pass E mk s (length l) pos True d cm w =
     (case pass_over E mk (drop pos l) d w of (d', w') \<Rightarrow> (Inr d', cm, w'))"
proof (induction "length l - pos" arbitrary: pos d w)
  case 0
  have it: "iterated True cm s = l" using l by (simp add: iterated_def)
  from 0 show ?case by (subst send_pass.simps) (simp add: it)
next
  case (Suc n)
  have it: "iterated True cm s = l" using l by (simp add: iterated_def)
  have dr: "drop pos l = l ! pos # drop (Suc pos) l"
    using Suc(2) by (simp add: Cons_nth_drop_Suc)
  have n: "n = length l - Suc pos" using Suc(2) by simp
  have lt: "\<not> length l \<le> pos" using Suc(2) by simp
  have t: "\<And>h. env_tasks E h = []" using q by (simp add: undisturbed_def)
  note IH = Suc(1) [OF n]
  show ?case
    by (subst send_pass.simps)
      (simp add: it dr lt t IH io_defs split: option.splits)
qed

text \<open>
  Without other tasks in between, a broadcast does what C5 says. It never fails. To a
  serial without subscribers it changes nothing and issues no request. Otherwise the pass
  runs over the whole subscriber set as it was at the start, and only then are the
  collected subscribers detached: every subscriber is looked at, every one found open is
  written to, nothing else is written to, and the serial's set afterwards holds exactly the
  subscribers that were open and whose write did not raise (the key is removed when none
  is left). The sets of other serials are untouched.
\<close>

lemma broadcast_undisturbed:
  assumes q: "undisturbed E"
    and mk: "mk = (\<lambda>ws. WsSendJson ws payload) \<or> mk = (\<lambda>ws. WsSendBytes ws payload)"
    and res: "broadcast E mk cm s w = (r, cm', w')"
  shows "r = Inr ()
     \<and> (active_connections cm s = None \<longrightarrow> cm' = cm \<and> w' = w)
     \<and> (\<forall>s'. s' \<noteq> s \<longrightarrow> active_connections cm' s' = active_connections cm s')
     \<and> (\<forall>l. active_connections cm s = Some l \<longrightarrow>
          (\<exists>d. pass_over E mk l [] w = (d, w') \<and> cm' = snd (disconnect_all cm d s))
          \<and> (\<forall>ws. ws \<in> set l \<longrightarrow> (\<exists>h. issued (trace w) (trace w') (WsState ws # h)))
          \<and> (\<forall>ws h. issued (trace w) (trace w') (WsState ws # h) \<and> env_bool E (WsState ws # h) \<longrightarrow>
                issued (trace w) (trace w') (mk ws # WsState ws # h))
          \<and> (\<forall>ws h. issued (trace w) (trace w') (WsState ws # h) \<or> issued (trace w) (trace w') (mk ws # h)
                \<longrightarrow> ws \<in> set l)
          \<and> (l \<noteq> [] \<longrightarrow>
                active_connections cm' s =
                  (if filter (\<lambda>ws. \<not> dropped E mk (trace w) (trace w') ws) l = [] then None
                   else Some (filter (\<lambda>ws. \<not> dropped E mk (trace w) (trace w') ws) l))))"
proof -
  have m1: "\<forall>a b. mk a \<noteq> WsState b" using mk by auto
  have m2: "inj mk" using mk by (auto simp: inj_def)
  have un: "broadcast E mk cm s w =
      (case pass_over E mk l [] w of
         (d, w1) \<Rightarrow> (fst (disconnect_all cm d s), snd (disconnect_all cm d s), w1))"
    if "active_connections cm s = Some l" for l
    using that send_pass_undisturbed [OF q that, of mk 0 "[]" w]
    by (simp add: broadcast_def split: prod.splits)
  have c: "active_connections cm s = None \<longrightarrow> cm' = cm \<and> w' = w"
    using res by (auto simp: broadcast_def)
  have b: "r = Inr ()"
  proof (cases "active_connections cm s")
    case None
    with res show ?thesis by (simp add: broadcast_def)
  next
    case (Some l)
    from un [OF Some] res show ?thesis
      by (auto simp: disconnect_all_ok split: prod.splits)
  qed
  have d: "\<forall>s'. s' \<noteq> s \<longrightarrow> active_connections cm' s' = active_connections cm s'"
  proof (cases "active_connections cm s")
    case None
    with c show ?thesis by simp
  next
    case (Some l)
    obtain dd w1 where p: "pass_over E mk l [] w = (dd, w1)" by (cases "pass_over E mk l [] w")
    have "cm' = snd (disconnect_all cm dd s)"
      using un [OF Some] p res by simp
    then show ?thesis using disconnect_all_other by simp
  qed
  have e: "\<forall>l. active_connections cm s = Some l \<longrightarrow>
          (\<exists>d. pass_over E mk l [] w = (d, w') \<and> cm' = snd (disconnect_all cm d s))
          \<and> (\<forall>ws. ws \<in> set l \<longrightarrow> (\<exists>h. issued (trace w) (trace w') (WsState ws # h)))
          \<and> (\<forall>ws h. issued (trace w) (trace w') (WsState ws # h) \<and> env_bool E (WsState ws # h) \<longrightarrow>
                issued (trace w) (trace w') (mk ws # WsState ws # h))
          \<and> (\<forall>ws h. issued (trace w) (trace w') (WsState ws # h) \<or> issued (trace w) (trace w') (mk ws # h)
                \<longrightarrow> ws \<in> set l)
          \<and> (l \<noteq> [] \<longrightarrow>
                active_connections cm' s =
                  (if filter (\<lambda>ws. \<not> dropped E mk (trace w) (trace w') ws) l = [] then None
                   else Some (filter (\<lambda>ws. \<not> dropped E mk (trace w) (trace w') ws) l)))"
  proof (intro allI impI)
    fix l
    assume l: "active_connections cm s = Some l"
    obtain dd w1 where p0: "pass_over E mk l [] w = (dd, w1)" by (cases "pass_over E mk l [] w")
    have cw: "cm' = snd (disconnect_all cm dd s)" "w' = w1"
      using un [OF l] p0 res by simp_all
    have p: "pass_over E mk l [] w = (dd, w')" using p0 cw by simp
    have e1: "\<exists>d. pass_over E mk l [] w = (d, w') \<and> cm' = snd (disconnect_all cm d s)"
      using p cw by blast
    have e2: "\<forall>ws. ws \<in> set l \<longrightarrow> (\<exists>h. issued (trace w) (trace w') (WsState ws # h))"
      using pass_over_visits [OF p] by blast
    have e3: "\<forall>ws h. issued (trace w) (trace w') (WsState ws # h) \<and> env_bool E (WsState ws # h) \<longrightarrow>
                issued (trace w) (trace w') (mk ws # WsState ws # h)"
      using pass_over_state [OF m1 p] by blast
    have e4: "\<forall>ws h. issued (trace w) (trace w') (WsState ws # h) \<or> issued (trace w) (trace w') (mk ws # h)
                \<longrightarrow> ws \<in> set l"
      using pass_over_state [OF m1 p] pass_over_write [OF m1 m2 p] by blast
    have dr: "ws \<in> set dd \<longleftrightarrow> dropped E mk (trace w) (trace w') ws" for ws
    proof
      assume "ws \<in> set dd"
      then show "dropped E mk (trace w) (trace w') ws"
        using pass_over_collected [OF p, of ws] by (simp add: dropped_def)
    next
      assume "dropped E mk (trace w) (trace w') ws"
      then show "ws \<in> set dd"
        unfolding dropped_def
        using pass_over_state [OF m1 p] pass_over_write [OF m1 m2 p] by blast
    qed
    have f: "filter (\<lambda>y. y \<notin> set dd) l = filter (\<lambda>ws. \<not> dropped E mk (trace w) (trace w') ws) l"
      by (rule filter_cong_set) (simp add: dr)
    have e5: "l \<noteq> [] \<longrightarrow>
                active_connections cm' s =
                  (if filter (\<lambda>ws. \<not> dropped E mk (trace w) (trace w') ws) l = [] then None
                   else Some (filter (\<lambda>ws. \<not> dropped E mk (trace w) (trace w') ws) l))"
      using disconnect_all_same [OF l, of dd] cw(1) f by simp
    show "(\<exists>d. pass_over E mk l [] w = (d, w') \<and> cm' = snd (disconnect_all cm d s))
          \<and> (\<forall>ws. ws \<in> set l \<longrightarrow> (\<exists>h. issued (trace w) (trace w') (WsState ws # h)))
          \<and> (\<forall>ws h. issued (trace w) (trace w') (WsState ws # h) \<and> env_bool E (WsState ws # h) \<longrightarrow>
                issued (trace w) (trace w') (mk ws # WsState ws # h))
          \<and> (\<forall>ws h. issued (trace w) (trace w') (WsState ws # h) \<or> issued (trace w) (trace w') (mk ws # h)
                \<longrightarrow> ws \<in> set l)
          \<and> (l \<noteq> [] \<longrightarrow>
                active_connections cm' s =
                  (if filter (\<lambda>ws. \<not> dropped E mk (trace w) (trace w') ws) l = [] then None
                   else Some (filter (\<lambda>ws. \<not> dropped E mk (trace w) (trace w') ws) l)))"
      using e1 e2 e3 e4 e5 by (intro conjI)
  qed
  show ?thesis using b c d e by (intro conjI)
qed

lemma undisturbed_env_ws: "undisturbed env_ws"
  by (simp add: undisturbed_def env_ws_def mk_env_def)

lemma broadcast_three_val:
  "send_message env_ws cm_three ''m'' ''dev-1'' w0 =
     (Inr (), \<lparr>active_connections = [''dev-1'' \<mapsto> [1]]\<rparr>,
      \<lparr>trace = [WsSendJson 3 ''m'', WsState 3, WsState 2, WsSendJson 1 ''m'', WsState 1],
       clock = 0\<rparr>)"
  by (simp add: send_message_def broadcast_def send_pass.simps iterated_def cm_three_def io_defs
      env_ws_def mk_env_def w0_def set_add_def cm_disconnect_def set_discard_def Let_def)

text \<open>
  C5 on three viewers of \<open>dev-1\<close>, attached and open, when another task changes the set
  during a write. When the first viewer goes away during the write to it (the write raises
  and its handler detaches it), or a fourth attaches during that write, the set has
  changed size when the \<^verbatim>\<open>for\<close> statement takes its next step: \<open>send_message\<close> and
  \<open>send_binary\<close> raise \<^verbatim>\<open>RuntimeError\<close>, and the second and the third viewer, open and
  attached all the while, are neither looked at nor written to.
\<close>

theorem broadcast_fails_when_set_changes:
  "send_message env_viewer_leaves cm_three ''m'' ''dev-1'' w0 =
     (Inl (OtherException ''Set changed size during iteration''),
      \<lparr>active_connections = [''dev-1'' \<mapsto> [2, 3]]\<rparr>,
      \<lparr>trace = [WsSendJson 1 ''m'', WsState 1], clock = 0\<rparr>)
   \<and> send_binary env_viewer_leaves cm_three ''m'' ''dev-1'' w0 =
     (Inl (OtherException ''Set changed size during iteration''),
      \<lparr>active_connections = [''dev-1'' \<mapsto> [2, 3]]\<rparr>,
      \<lparr>trace = [WsSendBytes 1 ''m'', WsState 1], clock = 0\<rparr>)
   \<and> send_message env_viewer_joins cm_three ''m'' ''dev-1'' w0 =
     (Inl (OtherException ''Set changed size during iteration''),
      \<lparr>active_connections = [''dev-1'' \<mapsto> [1, 2, 3, 4]]\<rparr>,
      \<lparr>trace = [WsAccept 4, WsSendJson 1 ''m'', WsState 1], clock = 0\<rparr>)"
  by (simp add: send_message_def send_binary_def broadcast_def send_pass.simps iterated_def
      cm_three_def io_defs env_viewer_leaves_def env_viewer_joins_def env_ok_def mk_env_def w0_def
      set_add_def cm_disconnect_def cm_connect_def set_discard_def Let_def)

end
